theory Spec2Isabelle
  imports Complex_Main
begin

section \<open>Fixed parameters and user inputs\<close>

text \<open>
  The array sizes are preprocessor constants of the program; the inputs are its global
  constants. Values of type double are modelled as real numbers, so every statement
  below is about the arithmetic the program denotes, not about its rounding.
\<close>

definition imax :: int where "imax = 65"
definition jmax :: int where "jmax = 65"
definition neq :: int where "neq = 3"

definition nmax :: int where "nmax = 500000"
definition cfl :: real where "cfl = 9 / 10"
definition Cx :: real where "Cx = 1 / 100"
definition Cy :: real where "Cy = 1 / 100"
definition toler :: real where "toler = 1 / 10 ^ 10"
definition rkappa :: real where "rkappa = 1 / 10"
definition Re_c :: real where "Re_c = 100"
definition pinf :: real where "pinf = 801333844662 / 10 ^ 12"
definition uinf :: real where "uinf = 1"
definition rho :: real where "rho = 1"
definition xmin :: real where "xmin = 0"
definition xmax :: real where "xmax = 5 / 100"
definition ymin :: real where "ymin = 0"
definition ymax :: real where "ymax = 5 / 100"

text \<open>The derived inputs, as \<open>set_derived_inputs\<close> assigns them once at start-up.\<close>

definition rhoinv :: real where "rhoinv = 1 / rho"
definition rlength :: real where "rlength = xmax - xmin"
definition rmu :: real where "rmu = rho * uinf * rlength / Re_c"
definition vel2ref :: real where "vel2ref = uinf * uinf"
definition dx :: real where "dx = (xmax - xmin) / of_int (imax - 1)"
definition dy :: real where "dy = (ymax - ymin) / of_int (jmax - 1)"
definition rpi :: real where "rpi = arccos (- 1)"

text \<open>The constants of the manufactured solution, one entry per equation.\<close>

definition phi0 :: "real list" where "phi0 = [25 / 100, 3 / 10, 2 / 10]"
definition phix :: "real list" where "phix = [5 / 10, 15 / 100, 1 / 6]"
definition phiy :: "real list" where "phiy = [4 / 10, 2 / 10, 25 / 100]"
definition phixy :: "real list" where "phixy = [1 / 3, 25 / 100, 1 / 10]"
definition apx :: "real list" where "apx = [5 / 10, 1 / 3, 7 / 17]"
definition apy :: "real list" where "apy = [2 / 10, 25 / 100, 1 / 6]"
definition apxy :: "real list" where "apxy = [2 / 7, 4 / 10, 1 / 3]"
definition fsinx :: "real list" where "fsinx = [0, 1, 0]"
definition fsiny :: "real list" where "fsiny = [1, 0, 0]"
definition fsinxy :: "real list" where "fsinxy = [1, 1, 0]"

section \<open>The array classes\<close>

text \<open>
  An array object holds its dimensions and a pointer to a buffer of doubles. The buffer
  is modelled by the memory seen from that pointer: a function from offsets to values.
  The element operator does no bounds check and computes the offset
  \<open>i * jdim * kdim + j * kdim + k\<close>; offsets from \<open>0\<close> up to (excluding)
  \<open>idim * jdim * kdim\<close> belong to the allocation. A read at any other offset has no
  meaning in C++; the model returns what the memory function holds there, and
  \<open>in_alloc3\<close> and \<open>in_domain\<close> tell such reads apart.
\<close>

record Array3 =
  idim3 :: int
  jdim3 :: int
  kdim3 :: int
  data3 :: "int \<Rightarrow> real"

definition idx3 :: "Array3 \<Rightarrow> int \<Rightarrow> int \<Rightarrow> int \<Rightarrow> int" where
  "idx3 A i j k = i * jdim3 A * kdim3 A + j * kdim3 A + k"

definition at3 :: "Array3 \<Rightarrow> int \<Rightarrow> int \<Rightarrow> int \<Rightarrow> real" where
  "at3 A i j k = data3 A (idx3 A i j k)"

definition set3 :: "Array3 \<Rightarrow> int \<Rightarrow> int \<Rightarrow> int \<Rightarrow> real \<Rightarrow> Array3" where
  "set3 A i j k v = A\<lparr>data3 := (data3 A)(idx3 A i j k := v)\<rparr>"

definition in_alloc3 :: "Array3 \<Rightarrow> int \<Rightarrow> bool" where
  "in_alloc3 A a = (0 \<le> a \<and> a < idim3 A * jdim3 A * kdim3 A)"


definition swapData3 :: "Array3 \<Rightarrow> Array3 \<Rightarrow> Array3 \<times> Array3" where
  "swapData3 A B = (A\<lparr>data3 := data3 B\<rparr>, B\<lparr>data3 := data3 A\<rparr>)"

record Array2 =
  idim2 :: int
  jdim2 :: int
  data2 :: "int \<Rightarrow> real"

definition idx2 :: "Array2 \<Rightarrow> int \<Rightarrow> int \<Rightarrow> int" where
  "idx2 A i j = i * jdim2 A + j"

definition at2 :: "Array2 \<Rightarrow> int \<Rightarrow> int \<Rightarrow> real" where
  "at2 A i j = data2 A (idx2 A i j)"

definition set2 :: "Array2 \<Rightarrow> int \<Rightarrow> int \<Rightarrow> real \<Rightarrow> Array2" where
  "set2 A i j v = A\<lparr>data2 := (data2 A)(idx2 A i j := v)\<rparr>"

text \<open>
  Every field of the program is constructed with the dimensions
  \<open>(imax, jmax, neq)\<close>, every scalar field with \<open>(imax, jmax)\<close>.
\<close>

definition grid3 :: "Array3 \<Rightarrow> bool" where
  "grid3 A = (idim3 A = imax \<and> jdim3 A = jmax \<and> kdim3 A = neq)"

definition grid2 :: "Array2 \<Rightarrow> bool" where
  "grid2 A = (idim2 A = imax \<and> jdim2 A = jmax)"

definition in_domain :: "int \<Rightarrow> int \<Rightarrow> bool" where
  "in_domain i j = (0 \<le> i \<and> i < imax \<and> 0 \<le> j \<and> j < jmax)"

definition interior :: "int \<Rightarrow> int \<Rightarrow> bool" where
  "interior i j = (1 \<le> i \<and> i \<le> imax - 2 \<and> 1 \<le> j \<and> j \<le> jmax - 2)"

section \<open>Boundary conditions of the cavity\<close>

definition bndry_side :: "int \<Rightarrow> Array3 \<Rightarrow> Array3" where
  "bndry_side j u =
    (let i = 0;
         u = set3 u i j 0 (2 * at3 u 1 j 0 - at3 u 2 j 0);
         u = set3 u i j 1 0;
         u = set3 u i j 2 0;
         i = imax - 1;
         u = set3 u i j 0 (2 * at3 u (imax - 2) j 0 - at3 u (imax - 3) j 0);
         u = set3 u i j 1 0;
         u = set3 u i j 2 0
     in u)"

definition bndry_bottom_top :: "int \<Rightarrow> Array3 \<Rightarrow> Array3" where
  "bndry_bottom_top i u =
    (let j = 0;
         u = set3 u i j 0 (2 * at3 u i 1 0 - at3 u i 2 0);
         u = set3 u i j 1 0;
         u = set3 u i j 2 0;
         j = jmax - 1;
         u = set3 u i j 0 (2 * at3 u i (jmax - 2) 0 - at3 u i (jmax - 3) 0);
         u = set3 u i j 1 uinf;
         u = set3 u i j 2 0
     in u)"

definition bndry :: "Array3 \<Rightarrow> Array3" where
  "bndry u = fold bndry_bottom_top [0..imax - 1] (fold bndry_side [1..jmax - 2] u)"

section \<open>Manufactured solution\<close>

definition umms :: "real \<Rightarrow> real \<Rightarrow> nat \<Rightarrow> real" where
  "umms x y k =
    (let argx = apx ! k * rpi * x / rlength;
         argy = apy ! k * rpi * y / rlength;
         argxy = apxy ! k * rpi * x * y / rlength / rlength;
         termx = phix ! k * (fsinx ! k * sin argx + (1 - fsinx ! k) * cos argx);
         termy = phiy ! k * (fsiny ! k * sin argy + (1 - fsiny ! k) * cos argy);
         termxy = phixy ! k * (fsinxy ! k * sin argxy + (1 - fsinxy ! k) * cos argxy)
     in phi0 ! k + termx + termy + termxy)"

section \<open>Pressure rescaling\<close>

text \<open>
  The manufactured-solution flag \<open>imms\<close> is a global constant of the program (set to
  \<open>0\<close>); it is a parameter here so that both branches can be stated.
\<close>

definition pressure_rescaling :: "int \<Rightarrow> Array3 \<Rightarrow> Array3" where
  "pressure_rescaling imms u =
    (let iref = (imax - 1) div 2;
         jref = (jmax - 1) div 2;
         deltap =
           (if imms = 1
            then (let x = (xmax - xmin) * of_int iref / of_int (imax - 1);
                      y = (ymax - ymin) * of_int jref / of_int (jmax - 1)
                  in at3 u iref jref 0 - umms x y 0)
            else at3 u iref jref 0 - pinf)
     in fold (\<lambda>i u. fold (\<lambda>j u. set3 u i j 0 (at3 u i j 0 - deltap)) [0..jmax - 1] u)
          [0..imax - 1] u)"

section \<open>Time-step controller\<close>

definition compute_time_step_cell ::
  "real \<Rightarrow> Array3 \<Rightarrow> int \<Rightarrow> int \<Rightarrow> Array2 \<times> real \<Rightarrow> Array2 \<times> real" where
  "compute_time_step_cell nu u i j = (\<lambda>(dt, dtmin).
    (let dtvisc = (dx * dy) / (4 * nu);
         uvel2 = (at3 u i j 1 * at3 u i j 1) + at3 u i j 2 * at3 u i j 2;
         beta2 = max uvel2 (rkappa * vel2ref);
         lambda_x = (1 / 2) * (\<bar>at3 u i j 1\<bar> + sqrt (at3 u i j 1 * at3 u i j 1 + 4 * beta2));
         lambda_y = (1 / 2) * (\<bar>at3 u i j 2\<bar> + sqrt (at3 u i j 2 * at3 u i j 2 + 4 * beta2));
         lambda_max = max lambda_x lambda_y;
         dtconv = min dx dy / \<bar>lambda_max\<bar>;
         dt = set2 dt i j (cfl * min dtvisc dtconv);
         dtmin = min dtmin (at2 dt i j)
     in (dt, dtmin)))"

text \<open>
  \<open>dtmin\<close> is a reference parameter: the function starts from the value the caller
  passes in and returns the updated one.
\<close>

definition compute_time_step :: "Array3 \<Rightarrow> Array2 \<Rightarrow> real \<Rightarrow> Array2 \<times> real" where
  "compute_time_step u dt dtmin =
    (let nu = rmu / rho;
         (dt, dtmin) =
            fold (\<lambda>i. fold (\<lambda>j. compute_time_step_cell nu u i j) [1..jmax - 2])
              [1..imax - 2] (dt, dtmin);
         dt = fold (\<lambda>i dt. set2 (set2 dt i 0 dtmin) i (jmax - 1) dtmin) [0..imax - 1] dt;
         dt = fold (\<lambda>j dt. set2 (set2 dt 0 j dtmin) (imax - 1) j dtmin) [0..jmax - 1] dt
     in (dt, dtmin))"

section \<open>Artificial dissipation\<close>

text \<open>
  A pressure stencil is written as the list of its terms (coefficient, i, j), in the
  order of the source expression; \<open>psum\<close> is the value of the expression and
  \<open>cav_log\<close> records the cells it reads. The local variables \<open>beta2\<close>,
  \<open>lambda_x\<close> and \<open>lambda_y\<close> are assigned in the interior loop only and keep
  their last values in the eight near-boundary cases; \<open>uvel2\<close> is never assigned.
  What these locals hold on entry is not determined by the program and is a parameter.
\<close>

datatype stencil_case =
  Corner_BL | Corner_TL | Corner_BR | Corner_TR | Left_wall | Right_wall | Bottom_wall | Top_wall

record cav_locals =
  uvel2_0 :: real
  beta2_0 :: real
  lambda_x_0 :: real
  lambda_y_0 :: real

record cav_state =
  cv_viscx :: Array2
  cv_viscy :: Array2
  cv_beta2 :: real
  cv_lambda_x :: real
  cv_lambda_y :: real
  cv_reads :: "(stencil_case \<times> int \<times> int \<times> int) list"

definition psum :: "Array3 \<Rightarrow> (real \<times> int \<times> int) list \<Rightarrow> real" where
  "psum u ts = sum_list (map (\<lambda>(c, i, j). c * at3 u i j 0) ts)"

definition cav_log :: "stencil_case \<Rightarrow> (real \<times> int \<times> int) list \<Rightarrow> cav_state \<Rightarrow> cav_state" where
  "cav_log c ts s = s\<lparr>cv_reads := cv_reads s @ map (\<lambda>(co, i, j). (c, i, j, 0)) ts\<rparr>"

definition cav_store :: "int \<Rightarrow> int \<Rightarrow> real \<Rightarrow> real \<Rightarrow> cav_state \<Rightarrow> cav_state" where
  "cav_store i j d4pdx4 d4pdy4 s =
    s\<lparr>cv_viscx := set2 (cv_viscx s) i j
          (d4pdx4 * (- \<bar>cv_lambda_x s\<bar> * Cx * (dx * dx * dx)) / cv_beta2 s),
      cv_viscy := set2 (cv_viscy s) i j
          (d4pdy4 * (- \<bar>cv_lambda_y s\<bar> * Cy * (dy * dy * dy)) / cv_beta2 s)\<rparr>"

definition cav_interior :: "Array3 \<Rightarrow> real \<Rightarrow> int \<Rightarrow> int \<Rightarrow> cav_state \<Rightarrow> cav_state" where
  "cav_interior u uvel2 i j s =
    (let d4pdx4 = psum u [(1, i + 2, j), (- 4, i + 1, j), (6, i, j), (- 4, i - 1, j), (1, i - 2, j)]
                    / (dx * dx * dx * dx);
         d4pdy4 = psum u [(1, i, j + 2), (- 4, i, j + 1), (6, i, j), (- 4, i, j - 1), (1, i, j - 2)]
                    / (dy * dy * dy * dy);
         beta2 = max uvel2 (rkappa * vel2ref);
         lambda_x = of_int (1 div 2)
                    * (\<bar>at3 u i j 1\<bar> + sqrt (at3 u i j 1 * at3 u i j 1 + 4 * beta2));
         lambda_y = of_int (1 div 2)
                    * (\<bar>at3 u i j 2\<bar> + sqrt (at3 u i j 2 * at3 u i j 2 + 4 * beta2))
     in cav_store i j d4pdx4 d4pdy4
          (s\<lparr>cv_beta2 := beta2, cv_lambda_x := lambda_x, cv_lambda_y := lambda_y\<rparr>))"

definition cav_corners :: "Array3 \<Rightarrow> cav_state \<Rightarrow> cav_state" where
  "cav_corners u s =
    (let i = 1; j = 1;
         sx = [(1, i - 1, j), (- 4, i, j), (6, i + 1, j), (- 4, i + 2, j), (1, i + 3, j)];
         sy = [(1, i, j - 1), (- 4, i, j), (6, i, j + 1), (- 4, i, j + 2), (1, i, j + 3)];
         s = cav_store 1 1 (psum u sx / dx) (psum u sy / dy) (cav_log Corner_BL (sx @ sy) s);
         i = 1; j = jmax - 2;
         sx = [(1, i - 1, j), (- 4, i, j), (6, i + 1, j), (- 4, i + 2, j), (1, i + 3, j)];
         sy = [(1, i, j - 3), (- 4, i, j - 2), (6, i, j - 1), (- 4, i, j), (1, i, j + 1)];
         s = cav_store 1 (jmax - 2) (psum u sx / dx) (psum u sy / dy)
               (cav_log Corner_TL (sx @ sy) s);
         i = imax - 2; j = 1;
         sx = [(1, i - 3, j), (- 4, i - 2, j), (6, i - 1, j), (- 4, i, j), (1, i + 1, j)];
         sy = [(1, i, j - 1), (- 4, i, j), (6, i, j + 1), (- 4, i, j + 2), (1, i, j + 3)];
         s = cav_store (imax - 2) 1 (psum u sx / dx) (psum u sy / dy)
               (cav_log Corner_BR (sx @ sy) s);
         i = imax - 2; j = jmax - 2;
         sx = [(1, i - 3, j), (- 4, i - 2, j), (6, i - 1, j), (- 4, i, j), (1, i + 1, j)];
         sy = [(1, i, j - 3), (- 4, i, j - 2), (6, i, j - 1), (- 4, i, j), (1, i, j + 1)];
         s = cav_store (imax - 2) (jmax - 2) (psum u sx / dx) (psum u sy / dy)
               (cav_log Corner_TR (sx @ sy) s)
     in s)"

text \<open>
  In the two wall loops the stencils of the first wall are computed and then overwritten
  by those of the second wall before the single pair of stores, as in the source.
\<close>

definition cav_left_right :: "Array3 \<Rightarrow> int \<Rightarrow> cav_state \<Rightarrow> cav_state" where
  "cav_left_right u j s =
    (let i = 2;
         sx = [(1, i - 1, j), (- 4, i, j), (6, i + 1, j), (- 4, i + 2, j), (1, i + 3, j)];
         sy = [(1, i, j - 2), (- 4, i, j - 1), (6, i, j), (- 4, i, j + 1), (1, i, j + 2)];
         d4pdx4 = psum u sx / dx;
         d4pdy4 = psum u sy / dy;
         s = cav_log Left_wall (sx @ sy) s;
         i = imax - 2;
         sx = [(1, i - 3, j), (- 4, i - 2, j), (6, i - 1, j), (- 4, i, j), (1, i + 1, j)];
         sy = [(1, i, j - 2), (- 4, i, j - 1), (6, i, j), (- 4, i, j + 1), (1, i, j + 2)];
         d4pdx4 = psum u sx / dx;
         d4pdy4 = psum u sy / dy;
         s = cav_log Right_wall (sx @ sy) s
     in cav_store i j d4pdx4 d4pdy4 s)"

definition cav_bottom_top :: "Array3 \<Rightarrow> int \<Rightarrow> cav_state \<Rightarrow> cav_state" where
  "cav_bottom_top u i s =
    (let j = 2;
         sx = [(1, i - 2, j), (- 4, i - 1, j), (6, i, j), (- 4, i + 1, j), (1, i + 2, j)];
         sy = [(1, i, j - 1), (- 4, i, j), (6, i, j + 1), (- 4, i, j + 2), (1, i, j + 3)];
         d4pdx4 = psum u sx / dx;
         d4pdy4 = psum u sy / dy;
         s = cav_log Bottom_wall (sx @ sy) s;
         j = jmax - 2;
         sx = [(1, i - 2, j), (- 4, i - 1, j), (6, i, j), (- 4, i + 1, j), (1, i + 2, j)];
         sy = [(1, i, j - 3), (- 4, i, j - 2), (6, i, j - 1), (- 4, i, j), (1, i, j + 1)];
         d4pdx4 = psum u sx / dx;
         d4pdy4 = psum u sy / dy;
         s = cav_log Top_wall (sx @ sy) s
     in cav_store i j d4pdx4 d4pdy4 s)"

definition Compute_Artificial_Viscosity ::
  "cav_locals \<Rightarrow> Array3 \<Rightarrow> Array2 \<Rightarrow> Array2 \<Rightarrow> cav_state" where
  "Compute_Artificial_Viscosity l u viscx viscy =
    (let s = \<lparr>cv_viscx = viscx, cv_viscy = viscy, cv_beta2 = beta2_0 l,
               cv_lambda_x = lambda_x_0 l, cv_lambda_y = lambda_y_0 l, cv_reads = []\<rparr>;
         s = fold (\<lambda>i. fold (\<lambda>j. cav_interior u (uvel2_0 l) i j) [2..jmax - 4]) [2..imax - 4] s;
         s = cav_corners u s;
         s = fold (cav_left_right u) [2..jmax - 2] s;
         s = fold (cav_bottom_top u) [2..imax - 2] s
     in s)"

section \<open>Relaxation schemes\<close>

text \<open>
  The loop bodies of the forward and of the backward Gauss-Seidel sweep are the same
  statements; \<open>SGS_cell\<close> is that body. It reads and writes the one field \<open>u\<close>.
\<close>

definition SGS_cell ::
  "Array2 \<Rightarrow> Array2 \<Rightarrow> Array2 \<Rightarrow> Array3 \<Rightarrow> int \<Rightarrow> int \<Rightarrow> Array3 \<Rightarrow> Array3" where
  "SGS_cell viscx viscy dt s i j u =
    (let dpdx = (at3 u (i + 1) j 0 - at3 u (i - 1) j 0) / (2 * dx);
         dudx = (at3 u (i + 1) j 1 - at3 u (i - 1) j 1) / (2 * dx);
         dvdx = (at3 u (i + 1) j 2 - at3 u (i - 1) j 2) / (2 * dx);
         dpdy = (at3 u i (j + 1) 0 - at3 u i (j - 1) 0) / (2 * dy);
         dudy = (at3 u i (j + 1) 1 - at3 u i (j - 1) 1) / (2 * dy);
         dvdy = (at3 u i (j + 1) 2 - at3 u i (j - 1) 2) / (2 * dy);
         d2udx2 = (at3 u (i + 1) j 1 - (2 * at3 u i j 1) + at3 u (i - 1) j 1) / (dx * dx);
         d2vdx2 = (at3 u (i + 1) j 2 - (2 * at3 u i j 2) + at3 u (i - 1) j 2) / (dx * dx);
         d2udy2 = (at3 u i (j + 1) 1 - (2 * at3 u i j 1) + at3 u i (j - 1) 1) / (dy * dy);
         d2vdy2 = (at3 u i (j + 1) 2 - (2 * at3 u i j 2) + at3 u i (j - 1) 2) / (dy * dy);
         uvel2 = (at3 u i j 1 * at3 u i j 1) + (at3 u i j 2 * at3 u i j 2);
         beta2 = max uvel2 (rkappa * vel2ref);
         u = set3 u i j 0 (at3 u i j 0 - (beta2 * at2 dt i j
               * ((rho * dudx) + (rho * dvdy) - at2 viscx i j - at2 viscy i j - at3 s i j 0)));
         u = set3 u i j 1 (at3 u i j 1 - (at2 dt i j * rhoinv
               * ((rho * at3 u i j 1 * dudx) + (rho * at3 u i j 2 * dudy) + dpdx
                  - (rmu * d2udx2) - (rmu * d2udy2) - at3 s i j 1)));
         u = set3 u i j 2 (at3 u i j 2 - (at2 dt i j * rhoinv
               * ((rho * at3 u i j 1 * dvdx) + (rho * at3 u i j 2 * dvdy) + dpdy
                  - (rmu * d2vdx2) - (rmu * d2vdy2) - at3 s i j 2)))
     in u)"



definition PJ_cell ::
  "Array3 \<Rightarrow> Array2 \<Rightarrow> Array2 \<Rightarrow> Array2 \<Rightarrow> Array3 \<Rightarrow> int \<Rightarrow> int \<Rightarrow> Array3 \<Rightarrow> Array3" where
  "PJ_cell uold viscx viscy dt s i j u =
    (let dpdx = (at3 uold (i + 1) j 0 - at3 uold (i - 1) j 0) / (2 * dx);
         dudx = (at3 uold (i + 1) j 1 - at3 uold (i - 1) j 1) / (2 * dx);
         dvdx = (at3 uold (i + 1) j 2 - at3 uold (i - 1) j 2) / (2 * dx);
         dpdy = (at3 uold i (j + 1) 0 - at3 uold i (j - 1) 0) / (2 * dy);
         dudy = (at3 uold i (j + 1) 1 - at3 uold i (j - 1) 1) / (2 * dy);
         dvdy = (at3 uold i (j + 1) 2 - at3 uold i (j - 1) 2) / (2 * dy);
         d2udx2 = (at3 uold (i + 1) j 1 - 2 * at3 uold i j 1 + at3 uold (i - 1) j 1) / (dx * dx);
         d2vdx2 = (at3 uold (i + 1) j 2 - 2 * at3 uold i j 2 + at3 uold (i - 1) j 2) / (dx * dx);
         d2udy2 = (at3 uold i (j + 1) 1 - 2 * at3 uold i j 1 + at3 uold i (j - 1) 1) / (dy * dy);
         d2vdy2 = (at3 uold i (j + 1) 2 - 2 * at3 uold i j 2 + at3 uold i (j - 1) 2) / (dy * dy);
         uvel2 = at3 uold i j 1 * at3 uold i j 1 + at3 uold i j 2 * at3 uold i j 2;
         beta2 = max uvel2 (rkappa * vel2ref);
         u = set3 u i j 0 (at3 uold i j 0 - beta2 * at2 dt i j
               * ((rho * dudx) + (rho * dvdy) - at2 viscx i j - at2 viscy i j - at3 s i j 0));
         u = set3 u i j 1 (at3 uold i j 1 - at2 dt i j * rhoinv
               * ((rho * at3 uold i j 1 * dudx) + (rho * at3 uold i j 2 * dudy) + dpdx
                  - rmu * d2udx2 - rmu * d2udy2 - at3 s i j 1));
         u = set3 u i j 2 (at3 uold i j 2 - at2 dt i j * rhoinv
               * ((rho * at3 uold i j 1 * dvdx) + (rho * at3 uold i j 2 * dvdy) + dpdy
                  - rmu * d2vdx2 - rmu * d2vdy2 - at3 s i j 2))
     in u)"

definition point_Jacobi ::
  "Array3 \<Rightarrow> Array3 \<Rightarrow> Array2 \<Rightarrow> Array2 \<Rightarrow> Array2 \<Rightarrow> Array3 \<Rightarrow> Array3" where
  "point_Jacobi u uold viscx viscy dt s =
    fold (\<lambda>i. fold (\<lambda>j. PJ_cell uold viscx viscy dt s i j) [1..jmax - 2]) [1..imax - 2] u"

text \<open>
  The arrays an iteration step receives by reference. A step returns them as it leaves
  them. The boundary-condition routine is the function pointer the step is given; the
  pair of \<open>cav_locals\<close> is what the locals of the first and of the second call of
  \<open>Compute_Artificial_Viscosity\<close> hold on entry.
\<close>

record fields =
  fu :: Array3
  fuold :: Array3
  fsrc :: Array3
  fviscx :: Array2
  fviscy :: Array2
  fdt :: Array2


definition PJ_iteration ::
  "cav_locals \<times> cav_locals \<Rightarrow> (Array3 \<Rightarrow> Array3) \<Rightarrow> fields \<Rightarrow> fields" where
  "PJ_iteration ls set_boundary_conditions f =
    (let (uold, u) = swapData3 (fuold f) (fu f);
         c = Compute_Artificial_Viscosity (fst ls) uold (fviscx f) (fviscy f);
         u = point_Jacobi u uold (cv_viscx c) (cv_viscy c) (fdt f) (fsrc f);
         u = set_boundary_conditions u
     in f\<lparr>fu := u, fuold := uold, fviscx := cv_viscx c, fviscy := cv_viscy c\<rparr>)"

section \<open>Convergence monitor\<close>

text \<open>
  The arrays \<open>res\<close> and \<open>resinit\<close> of three doubles are functions of the equation
  index. The iteration number, the time and \<open>dtmin\<close> are only printed by this routine
  and are left out, as is the printing.
\<close>

definition check_iterative_convergence ::
  "Array3 \<Rightarrow> Array3 \<Rightarrow> Array2 \<Rightarrow> (int \<Rightarrow> real) \<Rightarrow> (int \<Rightarrow> real) \<Rightarrow> (int \<Rightarrow> real) \<times> real" where
  "check_iterative_convergence u uold dt res resinit =
    (let res = res(0 := 0);
         res = res(1 := 0);
         res = res(2 := 0);
         res = fold (\<lambda>k res. res(k := 0)) [0..neq - 1] res;
         res = fold (\<lambda>i. fold (\<lambda>j. fold (\<lambda>k res.
                   (let diff = (at3 u i j k - at3 uold i j k) / at2 dt i j
                    in res(k := res k + diff * diff))) [0..neq - 1]) [1..jmax - 2])
                 [1..imax - 2] res;
         res = fold (\<lambda>k res.
                   (let res = res(k := sqrt (res k / of_int ((imax - 2) * (jmax - 2))))
                    in res(k := res k / resinit k))) [0..neq - 1] res;
         first = max (res 0) (res 1);
         conv = max first (res 2)
     in (res, conv))"

section \<open>Initial state and driver loop\<close>

datatype error = Bad_restart_flag | Restart_file_missing

record restart_file =
  rf_n :: int
  rf_time :: real
  rf_resinit :: "int \<Rightarrow> real"
  rf_u :: "int \<Rightarrow> int \<Rightarrow> int \<Rightarrow> real"

definition initial_column :: "int \<Rightarrow> Array3 \<times> Array3 \<Rightarrow> Array3 \<times> Array3" where
  "initial_column i = (\<lambda>(u, s).
    (let (u, s) = fold (\<lambda>j (u, s).
            (set3 (set3 (set3 u i j 0 pinf) i j 1 0) i j 2 0,
             set3 (set3 (set3 s i j 0 0) i j 1 0) i j 2 0)) [0..jmax - 1] (u, s)
     in (set3 u i (jmax - 1) 1 uinf, s)))"

text \<open>
  \<open>initial\<close> returns the first iteration number, the time, the initial residuals and
  the two arrays. The restart flag \<open>irstr\<close> is a global constant (set to \<open>0\<close>); on
  a restart the values come from the restart file, whose content is a parameter.
\<close>

definition initial ::
  "int \<Rightarrow> restart_file option \<Rightarrow> Array3 \<Rightarrow> Array3
    \<Rightarrow> error + (int \<times> real \<times> (int \<Rightarrow> real) \<times> Array3 \<times> Array3)" where
  "initial irstr file u s =
    (if irstr = 0 then
       (let ninit = 1;
            rtime = 0;
            resinit = fold (\<lambda>k r. r(k := 1)) [0..neq - 1] (\<lambda>k. 0);
            (u, s) = fold initial_column [0..imax - 1] (u, s)
        in Inr (ninit, rtime, resinit, u, s))
     else if irstr = 1 then
       (case file of
          None \<Rightarrow> Inl Restart_file_missing
        | Some r \<Rightarrow>
            (let u = fold (\<lambda>i. fold (\<lambda>j u.
                       set3 (set3 (set3 u i j 0 (rf_u r i j 0)) i j 1 (rf_u r i j 1))
                         i j 2 (rf_u r i j 2)) [0..jmax - 1]) [0..imax - 1] u
             in Inr (rf_n r + 1, rf_time r, rf_resinit r, u, s)))
     else Inl Bad_restart_flag)"

record run_state =
  rs_n :: int
  rs_rtime :: real
  rs_dtmin :: real
  rs_conv :: real
  rs_res :: "int \<Rightarrow> real"
  rs_resinit :: "int \<Rightarrow> real"
  rs_fields :: fields

text \<open>
  One pass through the body of the main loop, up to the convergence test:
  time step, iteration step, pressure rescaling, time update, convergence check.
  \<open>step\<close> is the iteration-step function pointer, \<open>bc\<close> the boundary-condition
  one, \<open>junk n\<close> the indeterminate locals met in iteration \<open>n\<close>.
\<close>

definition main_iteration ::
  "(cav_locals \<times> cav_locals \<Rightarrow> (Array3 \<Rightarrow> Array3) \<Rightarrow> fields \<Rightarrow> fields)
    \<Rightarrow> (Array3 \<Rightarrow> Array3) \<Rightarrow> int \<Rightarrow> (int \<Rightarrow> cav_locals \<times> cav_locals)
    \<Rightarrow> run_state \<Rightarrow> run_state" where
  "main_iteration step bc imms junk s =
    (let f = rs_fields s;
         (dt, dtmin) = compute_time_step (fu f) (fdt f) (rs_dtmin s);
         f = step (junk (rs_n s)) bc (f\<lparr>fdt := dt\<rparr>);
         f = f\<lparr>fu := pressure_rescaling imms (fu f)\<rparr>;
         rtime = rs_rtime s + dtmin;
         (res, conv) = check_iterative_convergence (fu f) (fuold f) (fdt f) (rs_res s) (rs_resinit s)
     in s\<lparr>rs_rtime := rtime, rs_dtmin := dtmin, rs_conv := conv, rs_res := res,
          rs_fields := f\<rparr>)"

text \<open>
  The main loop runs from the current iteration number to \<open>nmax\<close> and leaves early
  once the convergence scalar is below the tolerance. Writing the output files does not
  change the state.
\<close>

function main_loop ::
  "(cav_locals \<times> cav_locals \<Rightarrow> (Array3 \<Rightarrow> Array3) \<Rightarrow> fields \<Rightarrow> fields)
    \<Rightarrow> (Array3 \<Rightarrow> Array3) \<Rightarrow> int \<Rightarrow> (int \<Rightarrow> cav_locals \<times> cav_locals)
    \<Rightarrow> run_state \<Rightarrow> run_state" where
  "main_loop step bc imms junk s =
    (if rs_n s \<le> nmax then
       (let s' = main_iteration step bc imms junk s
        in if rs_conv s' < toler then s'
           else main_loop step bc imms junk (s'\<lparr>rs_n := rs_n s' + 1\<rparr>))
     else s)"
  by pat_completeness auto
termination
  by (relation "measure (\<lambda>(step, bc, imms, junk, s). nat (nmax + 1 - rs_n s))")
    (auto simp: main_iteration_def Let_def split: prod.splits)

section \<open>Notions of the spec used in the statements\<close>

text \<open>
  The steady state of the spec's test: every spatial derivative the scheme forms (the
  central first and second differences of pressure and velocities) is zero at every
  interior cell, and so is the source.
\<close>

definition steady_state :: "Array3 \<Rightarrow> Array3 \<Rightarrow> bool" where
  "steady_state u s = (\<forall>i \<in> {1..imax - 2}. \<forall>j \<in> {1..jmax - 2}.
     (at3 u (i + 1) j 0 - at3 u (i - 1) j 0) / (2 * dx) = 0 \<and>
     (at3 u (i + 1) j 1 - at3 u (i - 1) j 1) / (2 * dx) = 0 \<and>
     (at3 u (i + 1) j 2 - at3 u (i - 1) j 2) / (2 * dx) = 0 \<and>
     (at3 u i (j + 1) 0 - at3 u i (j - 1) 0) / (2 * dy) = 0 \<and>
     (at3 u i (j + 1) 1 - at3 u i (j - 1) 1) / (2 * dy) = 0 \<and>
     (at3 u i (j + 1) 2 - at3 u i (j - 1) 2) / (2 * dy) = 0 \<and>
     (at3 u (i + 1) j 1 - 2 * at3 u i j 1 + at3 u (i - 1) j 1) / (dx * dx) = 0 \<and>
     (at3 u (i + 1) j 2 - 2 * at3 u i j 2 + at3 u (i - 1) j 2) / (dx * dx) = 0 \<and>
     (at3 u i (j + 1) 1 - 2 * at3 u i j 1 + at3 u i (j - 1) 1) / (dy * dy) = 0 \<and>
     (at3 u i (j + 1) 2 - 2 * at3 u i j 2 + at3 u i (j - 1) 2) / (dy * dy) = 0 \<and>
     at3 s i j 0 = 0 \<and> at3 s i j 1 = 0 \<and> at3 s i j 2 = 0)"

text \<open>
  The dissipation terms as the spec states them, for comparison with what the code
  stores: the central fourth difference of the pressure over the fourth power of the
  spacing, times minus the wave speed, the coefficient and the cube of the spacing,
  over \<open>beta2\<close>, all taken at the cell itself.
\<close>

definition spec_viscx :: "Array3 \<Rightarrow> int \<Rightarrow> int \<Rightarrow> real" where
  "spec_viscx u i j =
    (let beta2 = max (at3 u i j 1 * at3 u i j 1 + at3 u i j 2 * at3 u i j 2) (rkappa * vel2ref);
         lambda_x = (1 / 2) * (\<bar>at3 u i j 1\<bar> + sqrt (at3 u i j 1 * at3 u i j 1 + 4 * beta2))
     in - \<bar>lambda_x\<bar> * Cx * dx ^ 3
          * ((at3 u (i + 2) j 0 - 4 * at3 u (i + 1) j 0 + 6 * at3 u i j 0
              - 4 * at3 u (i - 1) j 0 + at3 u (i - 2) j 0) / dx ^ 4) / beta2)"

definition spec_viscy :: "Array3 \<Rightarrow> int \<Rightarrow> int \<Rightarrow> real" where
  "spec_viscy u i j =
    (let beta2 = max (at3 u i j 1 * at3 u i j 1 + at3 u i j 2 * at3 u i j 2) (rkappa * vel2ref);
         lambda_y = (1 / 2) * (\<bar>at3 u i j 2\<bar> + sqrt (at3 u i j 2 * at3 u i j 2 + 4 * beta2))
     in - \<bar>lambda_y\<bar> * Cy * dy ^ 3
          * ((at3 u i (j + 2) 0 - 4 * at3 u i (j + 1) 0 + 6 * at3 u i j 0
              - 4 * at3 u i (j - 1) 0 + at3 u i (j - 2) 0) / dy ^ 4) / beta2)"

text \<open>
  The local pseudo-time step of a cell as the spec states it: \<open>CFL\<close> times the smaller
  of the convective and the viscous limit.
\<close>

definition spec_local_step :: "Array3 \<Rightarrow> int \<Rightarrow> int \<Rightarrow> real" where
  "spec_local_step u i j =
    (let beta2 = max (at3 u i j 1 * at3 u i j 1 + at3 u i j 2 * at3 u i j 2) (rkappa * vel2ref);
         lambda_x = (1 / 2) * (\<bar>at3 u i j 1\<bar> + sqrt (at3 u i j 1 * at3 u i j 1 + 4 * beta2));
         lambda_y = (1 / 2) * (\<bar>at3 u i j 2\<bar> + sqrt (at3 u i j 2 * at3 u i j 2 + 4 * beta2));
         dt_c = min dx dy / max lambda_x lambda_y;
         dt_v = (dx * dy) / (4 * (rmu / rho))
     in cfl * min dt_c dt_v)"

text \<open>
  The raw residual of equation \<open>k\<close> as the spec states it: the root of the mean, over
  the interior cells, of the squared pseudo-time derivative.
\<close>

definition spec_raw_residual :: "Array3 \<Rightarrow> Array3 \<Rightarrow> Array2 \<Rightarrow> int \<Rightarrow> real" where
  "spec_raw_residual u uold dt k =
    sqrt ((\<Sum>(i, j) \<leftarrow> List.product [1..imax - 2] [1..jmax - 2].
             ((at3 u i j k - at3 uold i j k) / at2 dt i j) ^ 2)
          / of_int ((imax - 2) * (jmax - 2)))"

section \<open>Auxiliary notions for the proofs\<close>

text \<open>
  The cells of the dissipation arrays that \<open>Compute_Artificial_Viscosity\<close> stores to,
  and the statement that a state of that routine holds given values at one cell.
\<close>

definition cav_written :: "int \<Rightarrow> int \<Rightarrow> bool" where
  "cav_written i j =
    ((2 \<le> i \<and> i \<le> imax - 4 \<and> 2 \<le> j \<and> j \<le> jmax - 4) \<or>
     (i = 1 \<and> j = 1) \<or> (i = 1 \<and> j = jmax - 2) \<or>
     (i = imax - 2 \<and> j = 1) \<or> (i = imax - 2 \<and> j = jmax - 2) \<or>
     (i = imax - 2 \<and> 2 \<le> j \<and> j \<le> jmax - 2) \<or>
     (2 \<le> i \<and> i \<le> imax - 2 \<and> j = jmax - 2))"

definition cav_keeps :: "int \<Rightarrow> int \<Rightarrow> real \<Rightarrow> real \<Rightarrow> cav_state \<Rightarrow> bool" where
  "cav_keeps i j a b s =
    (grid2 (cv_viscx s) \<and> grid2 (cv_viscy s) \<and>
     at2 (cv_viscx s) i j = a \<and> at2 (cv_viscy s) i j = b)"

text \<open>
  For the in-place sweeps: the field that holds the cells of \<open>R\<close> where a sweep has
  already been (\<open>visited\<close>, a predicate on the indices \<open>i\<close>, \<open>j\<close> that the offset of a
  cell decodes to) and the cells of \<open>u\<close> elsewhere; and the interior cells a sweep has
  visited before it reaches the cell \<open>(i, j)\<close>, in ascending order for the forward
  sweep and in descending order for the backward sweep.
\<close>

definition mix_view :: "(int \<Rightarrow> int \<Rightarrow> bool) \<Rightarrow> Array3 \<Rightarrow> Array3 \<Rightarrow> Array3" where
  "mix_view visited R u =
    u\<lparr>data3 := (\<lambda>a. if visited (a div (jdim3 u * kdim3 u))
                           (a mod (jdim3 u * kdim3 u) div kdim3 u)
                      then data3 R a else data3 u a)\<rparr>"



section \<open>Concrete inputs\<close>

text \<open>A field of the grid's dimensions whose cells are all zero.\<close>

definition rest_field :: Array3 where
  "rest_field = \<lparr>idim3 = imax, jdim3 = jmax, kdim3 = neq, data3 = (\<lambda>a. 0)\<rparr>"

text \<open>A field whose cells all hold pressure 2 and velocity (5, 7).\<close>

definition uniform_257 :: Array3 where
  "uniform_257 = \<lparr>idim3 = imax, jdim3 = jmax, kdim3 = neq,
     data3 = (\<lambda>a. if a mod 3 = 0 then 2 else if a mod 3 = 1 then 5 else 7)\<rparr>"

text \<open>Scalar fields whose cells all hold 0, resp. 7, and locals that hold 0.\<close>

definition zero2 :: Array2 where
  "zero2 = \<lparr>idim2 = imax, jdim2 = jmax, data2 = (\<lambda>a. 0)\<rparr>"

definition sevens2 :: Array2 where
  "sevens2 = \<lparr>idim2 = imax, jdim2 = jmax, data2 = (\<lambda>a. 7)\<rparr>"

definition locals0 :: cav_locals where
  "locals0 = \<lparr>uvel2_0 = 0, beta2_0 = 0, lambda_x_0 = 0, lambda_y_0 = 0\<rparr>"

text \<open>
  A field at rest whose pressure is 1 at the cell (10, 10), which lies at offset
  \<open>10 * 195 + 10 * 3 = 1980\<close>, and 0 elsewhere.
\<close>

definition spike_field :: Array3 where
  "spike_field = \<lparr>idim3 = imax, jdim3 = jmax, kdim3 = neq,
     data3 = (\<lambda>a. if a = 1980 then 1 else 0)\<rparr>"

text \<open>
  Arrays for a step: on the field of zeros with an old buffer of other content, and on
  the field of zeros with non-zero dissipation arrays and time steps.
\<close>

definition rest_fields :: fields where
  "rest_fields = \<lparr>fu = rest_field, fuold = uniform_257, fsrc = rest_field,
     fviscx = zero2, fviscy = zero2, fdt = zero2\<rparr>"

definition stale_fields :: fields where
  "stale_fields = \<lparr>fu = rest_field, fuold = rest_field, fsrc = rest_field,
     fviscx = sevens2, fviscy = zero2, fdt = sevens2\<rparr>"




text \<open>
  The state in which \<open>main\<close> enters its loop in a fresh run with the wall boundary
  conditions: \<open>initial\<close>, then the boundary routine on the field; \<open>dtmin\<close> starts at
  \<open>1e99\<close>. The arrays are taken to hold zeros when allocated. The routine that fills
  the source array stores \<open>imms\<close> times the manufactured source, that is 0, in its
  interior cells, which \<open>initial\<close> has already set to 0, and is left out.
\<close>

definition fresh_start :: run_state where
  "fresh_start =
    (case initial 0 None rest_field rest_field of
       Inr (ninit, rtime, resinit, u, s) \<Rightarrow>
         \<lparr>rs_n = ninit, rs_rtime = rtime, rs_dtmin = 10 ^ 99, rs_conv = 0,
          rs_res = (\<lambda>k. 0), rs_resinit = resinit,
          rs_fields = \<lparr>fu = bndry u, fuold = rest_field, fsrc = s,
                        fviscx = zero2, fviscy = zero2, fdt = zero2\<rparr>\<rparr>
     | Inl e \<Rightarrow>
         \<lparr>rs_n = 0, rs_rtime = 0, rs_dtmin = 10 ^ 99, rs_conv = 0,
          rs_res = (\<lambda>k. 0), rs_resinit = (\<lambda>k. 0), rs_fields = rest_fields\<rparr>)"

section \<open>Basic facts about the arrays and the loops\<close>

lemma grid3_set3 [simp]: "grid3 (set3 u i j k v) = grid3 u"
  by (simp add: grid3_def set3_def)

lemma idx3_set3 [simp]: "idx3 (set3 u i j k v) = idx3 u"
  by (simp add: idx3_def set3_def fun_eq_iff)

lemma idx3_inj:
  assumes "grid3 u" "0 \<le> j" "j < jmax" "0 \<le> k" "k < neq"
    and "0 \<le> j'" "j' < jmax" "0 \<le> k'" "k' < neq"
  shows "(idx3 u i j k = idx3 u i' j' k') = (i = i' \<and> j = j' \<and> k = k')"
proof -
  have b: "0 \<le> j" "j < 65" "0 \<le> k" "k < 3" "0 \<le> j'" "j' < 65" "0 \<le> k'" "k' < 3"
    using assms unfolding jmax_def neq_def by simp_all
  have d: "idx3 u a b c = a * 195 + b * 3 + c" for a b c
    using assms(1) unfolding grid3_def idx3_def jmax_def neq_def by simp
  have "i = i' \<and> j = j' \<and> k = k'" if e: "i * 195 + j * 3 + k = i' * 195 + j' * 3 + k'"
  proof -
    have "i = i'" using e b by linarith
    moreover from this have "j = j'" using e b by linarith
    ultimately show ?thesis using e by simp
  qed
  then show ?thesis unfolding d by blast
qed

lemma at3_set3:
  assumes "grid3 u" "0 \<le> j" "j < jmax" "0 \<le> k" "k < neq"
    and "0 \<le> j'" "j' < jmax" "0 \<le> k'" "k' < neq"
  shows "at3 (set3 u i j k v) i' j' k' =
    (if i = i' \<and> j = j' \<and> k = k' then v else at3 u i' j' k')"
proof -
  have "at3 (set3 u i j k v) i' j' k' =
    (if idx3 u i j k = idx3 u i' j' k' then v else at3 u i' j' k')"
    by (auto simp: at3_def set3_def idx3_def)
  then show ?thesis
    unfolding idx3_inj [OF assms] .
qed

lemma at3_set3_same [simp]: "at3 (set3 u i j k v) i j k = v"
  by (simp add: at3_def set3_def idx3_def)

lemma at3_set3_triple:
  assumes "grid3 u" "0 \<le> j" "j < jmax" "0 \<le> j'" "j' < jmax" "0 \<le> k'" "k' < neq"
  shows "at3 (set3 (set3 (set3 u i j 0 a) i j 1 b) i j 2 c) i' j' k' =
    (if i' = i \<and> j' = j then (if k' = 0 then a else if k' = 1 then b else c)
     else at3 u i' j' k')"
proof -
  have "k' = 0 \<or> k' = 1 \<or> k' = 2" using assms(6,7) by (auto simp: neq_def)
  then show ?thesis
    using assms(1-5) by (auto simp: at3_set3 neq_def)
qed

lemma grid3_data3_update [simp]: "grid3 (a\<lparr>data3 := d\<rparr>) = grid3 a"
  by (simp add: grid3_def)

lemma at3_swapped:
  assumes "grid3 a" "grid3 b"
  shows "at3 (a\<lparr>data3 := data3 b\<rparr>) i j k = at3 b i j k"
  using assms by (simp add: at3_def idx3_def grid3_def)


lemma grid2_set2 [simp]: "grid2 (set2 A i j v) = grid2 A"
  by (simp add: grid2_def set2_def)

lemma idx2_inj:
  assumes "grid2 A" "0 \<le> j" "j < jmax" "0 \<le> j'" "j' < jmax"
  shows "(idx2 A i j = idx2 A i' j') = (i = i' \<and> j = j')"
proof -
  have b: "0 \<le> j" "j < 65" "0 \<le> j'" "j' < 65"
    using assms unfolding jmax_def by simp_all
  have d: "idx2 A a b = a * 65 + b" for a b
    using assms(1) unfolding grid2_def idx2_def jmax_def by simp
  have "i = i' \<and> j = j'" if e: "i * 65 + j = i' * 65 + j'"
  proof -
    have "i = i'" using e b by linarith
    then show ?thesis using e by simp
  qed
  then show ?thesis unfolding d by blast
qed

lemma at2_set2:
  assumes "grid2 A" "0 \<le> j" "j < jmax" "0 \<le> j'" "j' < jmax"
  shows "at2 (set2 A i j v) i' j' = (if i = i' \<and> j = j' then v else at2 A i' j')"
proof -
  have "at2 (set2 A i j v) i' j' = (if idx2 A i j = idx2 A i' j' then v else at2 A i' j')"
    by (auto simp: at2_def set2_def idx2_def)
  then show ?thesis unfolding idx2_inj [OF assms] .
qed

lemma at2_set2_same [simp]: "at2 (set2 A i j v) i j = v"
  by (simp add: at2_def set2_def idx2_def)

lemma fold_establish:
  assumes "x \<in> set xs" "I s"
    and "\<And>y s. y \<in> set xs \<Longrightarrow> I s \<Longrightarrow> I (f y s)"
    and "\<And>s. I s \<Longrightarrow> P (f x s)"
    and "\<And>y s. y \<in> set xs \<Longrightarrow> I s \<Longrightarrow> P s \<Longrightarrow> P (f y s)"
  shows "I (fold f xs s) \<and> P (fold f xs s)"
proof -
  obtain ys zs where xs: "xs = ys @ x # zs"
    using assms(1) by (meson split_list)
  have 1: "I (fold f ys s)"
    by (rule fold_invariant [where Q = "\<lambda>y. y \<in> set xs"]) (auto simp: xs assms)
  have 2: "I (f x (fold f ys s)) \<and> P (f x (fold f ys s))"
    using 1 assms(3)[of x] assms(4) assms(1) by blast
  have "I (fold f zs (f x (fold f ys s))) \<and> P (fold f zs (f x (fold f ys s)))"
    by (rule fold_invariant [where Q = "\<lambda>y. y \<in> set xs"]) (use 2 assms xs in auto)
  then show ?thesis by (simp add: xs)
qed

lemma fold_nested:
  "fold (\<lambda>i. fold (\<lambda>j. f i j) ys) xs = fold (\<lambda>(i, j). f i j) (List.product xs ys)"
proof (induction xs)
  case Nil
  then show ?case by simp
next
  case (Cons x xs)
  have "fold (\<lambda>(i, j). f i j) (map (Pair x) ys) = fold (f x) ys"
    by (simp add: fold_map comp_def)
  then show ?case using Cons by (simp add: comp_def)
qed



lemma upto_neq: "[0..neq - 1] = [0, 1, 2]"
  by (simp add: neq_def upto_rec1)

section \<open>The wall boundary conditions\<close>

lemma bndry_bottom_top_vel:
  assumes "grid3 u" "0 \<le> j'" "j' < jmax" "k' = 1 \<or> k' = 2"
  shows "at3 (bndry_bottom_top i u) i' j' k' =
    (if i' = i \<and> j' = 0 then 0
     else if i' = i \<and> j' = jmax - 1 then (if k' = 1 then uinf else 0)
     else at3 u i' j' k')"
  using assms by (auto simp: bndry_bottom_top_def Let_def at3_set3 jmax_def neq_def)

lemma bndry_side_vel:
  assumes "grid3 u" "0 \<le> j'" "j' < jmax" "k' = 1 \<or> k' = 2" "0 \<le> j" "j < jmax"
  shows "at3 (bndry_side j u) i' j' k' =
    (if (i' = 0 \<or> i' = imax - 1) \<and> j' = j then 0 else at3 u i' j' k')"
  using assms by (auto simp: bndry_side_def Let_def at3_set3 jmax_def neq_def imax_def)

lemma grid3_bndry_side [simp]: "grid3 (bndry_side j u) = grid3 u"
  by (simp add: bndry_side_def Let_def)

lemma grid3_bndry_bottom_top [simp]: "grid3 (bndry_bottom_top j u) = grid3 u"
  by (simp add: bndry_bottom_top_def Let_def)

lemma bndry_side_loop:
  assumes "grid3 u" "1 \<le> j" "j \<le> jmax - 2" "k = 1 \<or> k = 2"
  shows "grid3 (fold bndry_side [1..jmax - 2] u) \<and>
    (at3 (fold bndry_side [1..jmax - 2] u) 0 j k = 0 \<and>
     at3 (fold bndry_side [1..jmax - 2] u) (imax - 1) j k = 0)"
proof (rule fold_establish [where x = j])
  show "j \<in> set [1..jmax - 2]" using assms by simp
  show "grid3 u" by fact
next
  fix y s assume "y \<in> set [1..jmax - 2]" "grid3 s"
  then show "grid3 (bndry_side y s)" by simp
next
  fix s assume "grid3 s"
  then show "at3 (bndry_side j s) 0 j k = 0 \<and> at3 (bndry_side j s) (imax - 1) j k = 0"
    using assms by (simp add: bndry_side_vel)
next
  fix y s
  assume "y \<in> set [1..jmax - 2]" "grid3 s"
    "at3 s 0 j k = 0 \<and> at3 s (imax - 1) j k = 0"
  then show "at3 (bndry_side y s) 0 j k = 0 \<and> at3 (bndry_side y s) (imax - 1) j k = 0"
    using assms by (simp add: bndry_side_vel)
qed

lemma bndry_bottom_top_keeps_sides:
  assumes "grid3 u" "1 \<le> j" "j \<le> jmax - 2" "k = 1 \<or> k = 2"
  shows "at3 (fold bndry_bottom_top xs u) i j k = at3 u i j k"
  using assms(1)
proof (induction xs arbitrary: u)
  case Nil
  then show ?case by simp
next
  case (Cons x xs)
  then show ?case using assms(2-) by (simp add: bndry_bottom_top_vel)
qed

lemma bndry_bottom_top_loop:
  assumes "grid3 u" "0 \<le> i" "i < imax"
  shows "grid3 (fold bndry_bottom_top [0..imax - 1] u) \<and>
    (at3 (fold bndry_bottom_top [0..imax - 1] u) i 0 1 = 0 \<and>
     at3 (fold bndry_bottom_top [0..imax - 1] u) i 0 2 = 0 \<and>
     at3 (fold bndry_bottom_top [0..imax - 1] u) i (jmax - 1) 1 = uinf \<and>
     at3 (fold bndry_bottom_top [0..imax - 1] u) i (jmax - 1) 2 = 0)"
proof (rule fold_establish [where x = i])
  show "i \<in> set [0..imax - 1]" using assms by simp
  show "grid3 u" by fact
next
  fix y s assume "y \<in> set [0..imax - 1]" "grid3 s"
  then show "grid3 (bndry_bottom_top y s)" by simp
next
  fix s assume "grid3 s"
  then show "at3 (bndry_bottom_top i s) i 0 1 = 0 \<and> at3 (bndry_bottom_top i s) i 0 2 = 0 \<and>
     at3 (bndry_bottom_top i s) i (jmax - 1) 1 = uinf \<and>
     at3 (bndry_bottom_top i s) i (jmax - 1) 2 = 0"
    by (simp add: bndry_bottom_top_vel jmax_def)
next
  fix y s
  assume "y \<in> set [0..imax - 1]" "grid3 s"
    "at3 s i 0 1 = 0 \<and> at3 s i 0 2 = 0 \<and> at3 s i (jmax - 1) 1 = uinf \<and>
     at3 s i (jmax - 1) 2 = 0"
  then show "at3 (bndry_bottom_top y s) i 0 1 = 0 \<and> at3 (bndry_bottom_top y s) i 0 2 = 0 \<and>
     at3 (bndry_bottom_top y s) i (jmax - 1) 1 = uinf \<and>
     at3 (bndry_bottom_top y s) i (jmax - 1) 2 = 0"
    by (simp add: bndry_bottom_top_vel jmax_def)
qed

lemma bndry_side_other:
  assumes "grid3 u" "0 \<le> j'" "j' < jmax" "0 \<le> k'" "k' < neq" "0 \<le> j" "j < jmax"
    and "(i' \<noteq> 0 \<and> i' \<noteq> imax - 1) \<or> j' \<noteq> j"
  shows "at3 (bndry_side j u) i' j' k' = at3 u i' j' k'"
  using assms by (auto simp: bndry_side_def Let_def at3_set3 neq_def)

lemma bndry_bottom_top_other:
  assumes "grid3 u" "0 \<le> j'" "j' < jmax" "0 \<le> k'" "k' < neq"
    and "i' \<noteq> i \<or> (j' \<noteq> 0 \<and> j' \<noteq> jmax - 1)"
  shows "at3 (bndry_bottom_top i u) i' j' k' = at3 u i' j' k'"
  using assms by (auto simp: bndry_bottom_top_def Let_def at3_set3 neq_def jmax_def)

lemma bndry_interior:
  assumes "grid3 u" "interior i j" "0 \<le> k" "k < neq"
  shows "at3 (bndry u) i j k = at3 u i j k"
proof -
  have j: "0 \<le> j" "j < jmax" "j \<noteq> 0" "j \<noteq> jmax - 1" "i \<noteq> 0" "i \<noteq> imax - 1"
    using assms(2) by (simp_all add: interior_def)
  have 1: "grid3 (fold bndry_side [1..jmax - 2] u) \<and>
           at3 (fold bndry_side [1..jmax - 2] u) i j k = at3 u i j k"
    by (rule fold_invariant [where Q = "\<lambda>y. 1 \<le> y \<and> y \<le> jmax - 2"])
      (use assms j in \<open>auto simp: bndry_side_other\<close>)
  have "grid3 (bndry u) \<and> at3 (bndry u) i j k = at3 u i j k"
    unfolding bndry_def
    by (rule fold_invariant [where Q = "\<lambda>y. True"])
      (use assms j 1 in \<open>auto simp: bndry_bottom_top_other\<close>)
  then show ?thesis by simp
qed

lemma bndry_rows:
  assumes "grid3 u" "0 \<le> i" "i < imax"
  shows "at3 (bndry u) i 0 1 = 0 \<and> at3 (bndry u) i 0 2 = 0 \<and>
         at3 (bndry u) i (jmax - 1) 1 = uinf \<and> at3 (bndry u) i (jmax - 1) 2 = 0"
proof -
  have g: "grid3 (fold bndry_side [1..jmax - 2] u)"
    by (rule fold_invariant [where Q = "\<lambda>_. True"]) (simp_all add: assms)
  show ?thesis
    using bndry_bottom_top_loop [OF g assms(2,3)] by (simp add: bndry_def)
qed

lemma bndry_side_pressure:
  assumes "grid3 u" "0 \<le> j" "j < jmax"
  shows "at3 (bndry_side j u) 0 j 0 = 2 * at3 u 1 j 0 - at3 u 2 j 0"
    and "at3 (bndry_side j u) (imax - 1) j 0 = 2 * at3 u (imax - 2) j 0 - at3 u (imax - 3) j 0"
  using assms by (simp_all add: bndry_side_def Let_def at3_set3 neq_def imax_def)

lemma bndry_sides_pressure:
  assumes "grid3 u" "1 \<le> j" "j \<le> jmax - 2"
  shows "at3 (bndry u) 0 j 0 = 2 * at3 u 1 j 0 - at3 u 2 j 0 \<and>
         at3 (bndry u) (imax - 1) j 0 = 2 * at3 u (imax - 2) j 0 - at3 u (imax - 3) j 0"
proof -
  have j: "0 \<le> j" "j < jmax" "j \<noteq> 0" "j \<noteq> jmax - 1" using assms(2,3) by simp_all
  have z: "(0::int) \<le> 0" "(0::int) < neq" by (simp_all add: neq_def)
  let ?I = "\<lambda>s. grid3 s \<and> at3 s 1 j 0 = at3 u 1 j 0 \<and> at3 s 2 j 0 = at3 u 2 j 0 \<and>
      at3 s (imax - 2) j 0 = at3 u (imax - 2) j 0 \<and> at3 s (imax - 3) j 0 = at3 u (imax - 3) j 0"
  let ?P = "\<lambda>s. at3 s 0 j 0 = 2 * at3 u 1 j 0 - at3 u 2 j 0 \<and>
      at3 s (imax - 1) j 0 = 2 * at3 u (imax - 2) j 0 - at3 u (imax - 3) j 0"
  have "?I (fold bndry_side [1..jmax - 2] u) \<and> ?P (fold bndry_side [1..jmax - 2] u)"
  proof (rule fold_establish [where x = j])
    show "j \<in> set [1..jmax - 2]" using assms(2,3) by simp
    show "?I u" using assms(1) by simp
  next
    fix y s assume y: "y \<in> set [1..jmax - 2]" and i: "?I s"
    have "0 \<le> y" "y < jmax" using y by simp_all
    then show "?I (bndry_side y s)"
      using i j by (simp add: bndry_side_other [OF _ j(1,2) z] imax_def)
  next
    fix s assume "?I s"
    then show "?P (bndry_side j s)"
      using bndry_side_pressure [OF _ j(1,2), of s] by simp
  next
    fix y s assume y: "y \<in> set [1..jmax - 2]" and i: "?I s" and p: "?P s"
    have yr: "0 \<le> y" "y < jmax" using y by simp_all
    show "?P (bndry_side y s)"
    proof (cases "y = j")
      case True
      then show ?thesis using bndry_side_pressure [OF _ j(1,2), of s] i by simp
    next
      case False
      then show ?thesis
        using i p yr by (simp add: bndry_side_other [OF _ j(1,2) z])
    qed
  qed
  then have 1: "grid3 (fold bndry_side [1..jmax - 2] u)" "?P (fold bndry_side [1..jmax - 2] u)"
    by simp_all
  have "grid3 (bndry u) \<and> at3 (bndry u) 0 j 0 = at3 (fold bndry_side [1..jmax - 2] u) 0 j 0 \<and>
    at3 (bndry u) (imax - 1) j 0 = at3 (fold bndry_side [1..jmax - 2] u) (imax - 1) j 0"
    unfolding bndry_def
    by (rule fold_invariant [where Q = "\<lambda>y. True"])
      (use 1(1) j in \<open>auto simp: bndry_bottom_top_other [OF _ j(1,2) z]\<close>)
  then show ?thesis using 1(2) by simp
qed

lemma bndry_sides_velocity:
  assumes "grid3 u" "1 \<le> j" "j \<le> jmax - 2" "k = 1 \<or> k = 2"
  shows "at3 (bndry u) 0 j k = 0 \<and> at3 (bndry u) (imax - 1) j k = 0"
proof -
  have g: "grid3 (fold bndry_side [1..jmax - 2] u)"
    by (rule fold_invariant [where Q = "\<lambda>_. True"]) (simp_all add: assms(1))
  show ?thesis
    unfolding bndry_def bndry_bottom_top_keeps_sides [OF g assms(2-)]
    using bndry_side_loop [OF assms] by simp
qed

lemma grid3_bndry: "grid3 u \<Longrightarrow> grid3 (bndry u)"
  unfolding bndry_def
  by (intro fold_invariant [where Q = "\<lambda>_. True" and P = grid3]) simp_all

text \<open>
  Claim C8. After \<open>bndry\<close>, on every field of the grid's dimensions: each cell of the
  bottom row \<open>j = 0\<close>, corners included, has velocity \<open>(0, 0)\<close>; each cell of the top
  row \<open>j = jmax - 1\<close>, corners included, has velocity \<open>(uinf, 0)\<close>; each cell of the
  left and right columns strictly between the corners has velocity \<open>(0, 0)\<close>. The
  corners belong to the bottom/top loop, which runs last over \<open>i = 0 .. imax - 1\<close>.
\<close>

theorem bndry_wall_velocities:
  assumes "grid3 u"
  shows "(0 \<le> i \<and> i < imax \<longrightarrow>
            at3 (bndry u) i 0 1 = 0 \<and> at3 (bndry u) i 0 2 = 0 \<and>
            at3 (bndry u) i (jmax - 1) 1 = uinf \<and> at3 (bndry u) i (jmax - 1) 2 = 0) \<and>
         (1 \<le> j \<and> j \<le> jmax - 2 \<longrightarrow>
            at3 (bndry u) 0 j 1 = 0 \<and> at3 (bndry u) 0 j 2 = 0 \<and>
            at3 (bndry u) (imax - 1) j 1 = 0 \<and> at3 (bndry u) (imax - 1) j 2 = 0)"
proof -
  let ?s = "fold bndry_side [1..jmax - 2] u"
  have g: "grid3 ?s"
    by (rule fold_invariant [where Q = "\<lambda>_. True"]) (simp_all add: assms)
  have "at3 (bndry u) 0 j k = 0 \<and> at3 (bndry u) (imax - 1) j k = 0"
    if "1 \<le> j" "j \<le> jmax - 2" "k = 1 \<or> k = 2" for k
    unfolding bndry_def bndry_bottom_top_keeps_sides [OF g that]
    using bndry_side_loop [OF assms that] by simp
  then show ?thesis
    using bndry_bottom_top_loop [OF g, of i] by (auto simp: bndry_def)
qed

theorem bndry_wall_velocities_witness:
  "grid3 rest_field \<and> at3 (bndry rest_field) 0 (jmax - 1) 1 = uinf \<and>
   at3 (bndry rest_field) 0 0 1 = 0 \<and> at3 (bndry rest_field) (imax - 1) 7 2 = 0"
proof -
  have g: "grid3 rest_field" by (simp add: grid3_def rest_field_def)
  show ?thesis
    using g bndry_wall_velocities [OF g, of 0 7] by (simp add: imax_def jmax_def)
qed

section \<open>The pressure anchor\<close>

lemma pressure_shift_cells:
  assumes "grid3 u" "distinct cs" "\<forall>(i, j) \<in> set cs. 0 \<le> j \<and> j < jmax"
    and "0 \<le> j'" "j' < jmax" "0 \<le> k'" "k' < neq"
  shows "at3 (fold (\<lambda>(i, j) u. set3 u i j 0 (at3 u i j 0 - d)) cs u) i' j' k' =
    (if k' = 0 \<and> (i', j') \<in> set cs then at3 u i' j' 0 - d else at3 u i' j' k')"
  using assms(1-3)
proof (induction cs arbitrary: u)
  case Nil
  then show ?case by simp
next
  case (Cons c cs)
  obtain a b where c: "c = (a, b)" by (cases c)
  have b: "0 \<le> b" "b < jmax" using Cons.prems(3) c by auto
  have g: "grid3 (set3 u a b 0 (at3 u a b 0 - d))" using Cons.prems(1) by simp
  have "a \<noteq> i' \<or> b \<noteq> j'" if "(i', j') \<in> set cs"
    using that Cons.prems(2) c by auto
  then show ?case
    using Cons.IH [OF g] Cons.prems b assms(4-) c
    by (auto simp: at3_set3 neq_def)
qed

lemma pressure_rescaling_cells:
  assumes "grid3 u" "0 \<le> j" "j < jmax" "0 \<le> k" "k < neq"
  shows "at3 (pressure_rescaling imms u) i j k =
    (if k = 0 \<and> 0 \<le> i \<and> i < imax
     then at3 u i j 0 -
       (if imms = 1
        then at3 u ((imax - 1) div 2) ((jmax - 1) div 2) 0 -
          umms ((xmax - xmin) * of_int ((imax - 1) div 2) / of_int (imax - 1))
            ((ymax - ymin) * of_int ((jmax - 1) div 2) / of_int (jmax - 1)) 0
        else at3 u ((imax - 1) div 2) ((jmax - 1) div 2) 0 - pinf)
     else at3 u i j k)"
proof -
  have d: "distinct (List.product [0..imax - 1] [0..jmax - 1])"
    by (simp add: distinct_product)
  have r: "\<forall>(i, j) \<in> set (List.product [0..imax - 1] [0..jmax - 1]). 0 \<le> j \<and> j < jmax"
    by auto
  show ?thesis
    unfolding pressure_rescaling_def Let_def fold_nested
    using assms(2,3) by (simp add: pressure_shift_cells [OF assms(1) d r assms(2-)])
qed

text \<open>
  Claim C5. On every field of the grid's dimensions and for either value of the flag,
  \<open>pressure_rescaling\<close> subtracts from the pressure of every cell of the domain the one
  value \<open>deltap\<close>, the pressure of the centre cell minus the reference pressure
  (\<open>umms\<close> at the centre when \<open>imms = 1\<close>, otherwise \<open>pinf\<close>), and afterwards the
  pressure of the centre cell equals the reference pressure (in real arithmetic).
\<close>

theorem pressure_rescaling_anchor:
  assumes "grid3 u"
  shows "(in_domain i j \<longrightarrow>
           at3 (pressure_rescaling imms u) i j 0 =
             at3 u i j 0 - (at3 u ((imax - 1) div 2) ((jmax - 1) div 2) 0 -
               (if imms = 1
                then umms ((xmax - xmin) * of_int ((imax - 1) div 2) / of_int (imax - 1))
                       ((ymax - ymin) * of_int ((jmax - 1) div 2) / of_int (jmax - 1)) 0
                else pinf))) \<and>
         at3 (pressure_rescaling imms u) ((imax - 1) div 2) ((jmax - 1) div 2) 0 =
           (if imms = 1
            then umms ((xmax - xmin) * of_int ((imax - 1) div 2) / of_int (imax - 1))
                   ((ymax - ymin) * of_int ((jmax - 1) div 2) / of_int (jmax - 1)) 0
            else pinf)"
proof -
  have c: "0 \<le> (jmax - 1) div 2" "(jmax - 1) div 2 < jmax"
    "0 \<le> (imax - 1) div 2" "(imax - 1) div 2 < imax"
    by (simp_all add: imax_def jmax_def)
  have z: "(0::int) \<le> 0" "(0::int) < neq" by (simp_all add: neq_def)
  have 1: "at3 (pressure_rescaling imms u) i j 0 =
             at3 u i j 0 - (at3 u ((imax - 1) div 2) ((jmax - 1) div 2) 0 -
               (if imms = 1
                then umms ((xmax - xmin) * of_int ((imax - 1) div 2) / of_int (imax - 1))
                       ((ymax - ymin) * of_int ((jmax - 1) div 2) / of_int (jmax - 1)) 0
                else pinf))" if "in_domain i j"
    using that unfolding in_domain_def
    by (simp add: pressure_rescaling_cells [OF assms _ _ z])
  have 2: "at3 (pressure_rescaling imms u) ((imax - 1) div 2) ((jmax - 1) div 2) 0 =
           (if imms = 1
            then umms ((xmax - xmin) * of_int ((imax - 1) div 2) / of_int (imax - 1))
                   ((ymax - ymin) * of_int ((jmax - 1) div 2) / of_int (jmax - 1)) 0
            else pinf)"
    using c by (simp add: pressure_rescaling_cells [OF assms c(1,2) z])
  show ?thesis using 1 2 by blast
qed

theorem pressure_rescaling_anchor_witness:
  "grid3 rest_field \<and> in_domain 3 4 \<and>
   at3 (pressure_rescaling 0 rest_field) 3 4 0 = pinf \<and>
   at3 (pressure_rescaling 0 rest_field) 32 32 0 = pinf"
proof -
  have g: "grid3 rest_field" by (simp add: grid3_def rest_field_def)
  have d: "in_domain 3 4" by (simp add: in_domain_def imax_def jmax_def)
  have z: "at3 rest_field i j k = 0" for i j k by (simp add: at3_def rest_field_def)
  show ?thesis
    using g d pressure_rescaling_anchor [OF g, of 3 4 0] by (simp add: z imax_def jmax_def)
qed

text \<open>
  Claim C10. \<open>pressure_rescaling\<close> leaves the x-velocity (\<open>k = 1\<close>) and the
  y-velocity (\<open>k = 2\<close>) of every cell of the domain exactly as they were.
\<close>

theorem pressure_rescaling_velocities:
  assumes "grid3 u" "in_domain i j" "k = 1 \<or> k = 2"
  shows "at3 (pressure_rescaling imms u) i j k = at3 u i j k"
proof -
  have "0 \<le> j" "j < jmax" "0 \<le> k" "k < neq" "k \<noteq> 0"
    using assms(2,3) by (auto simp: in_domain_def neq_def)
  then show ?thesis by (simp add: pressure_rescaling_cells [OF assms(1)])
qed

theorem pressure_rescaling_velocities_witness:
  "grid3 uniform_257 \<and> in_domain 3 4 \<and>
   at3 (pressure_rescaling 0 uniform_257) 3 4 1 = 5 \<and>
   at3 (pressure_rescaling 0 uniform_257) 3 4 2 = 7"
proof -
  have g: "grid3 uniform_257" by (simp add: grid3_def uniform_257_def)
  have d: "in_domain 3 4" by (simp add: in_domain_def imax_def jmax_def)
  show ?thesis
    using g d pressure_rescaling_velocities [OF g d, of 1 0]
      pressure_rescaling_velocities [OF g d, of 2 0]
    by (simp add: at3_def idx3_def uniform_257_def jmax_def neq_def)
qed

section \<open>The time-step controller\<close>

lemma compute_time_step_cell_eq:
  "compute_time_step_cell (rmu / rho) u i j (dt, m) =
    (set2 dt i j (spec_local_step u i j), min m (spec_local_step u i j))"
proof -
  define x where "x = at3 u i j 1"
  define y where "y = at3 u i j 2"
  define z where "z = max (x * x + y * y) (rkappa * vel2ref)"
  define l where "l = max ((1 / 2) * (\<bar>x\<bar> + sqrt (x * x + 4 * z))) ((1 / 2) * (\<bar>y\<bar> + sqrt (y * y + 4 * z)))"
  have "0 \<le> z" by (simp add: z_def rkappa_def vel2ref_def uinf_def le_max_iff_disj)
  then have "0 \<le> l" by (simp add: l_def le_max_iff_disj)
  then have a: "\<bar>l\<bar> = l" by simp
  have s: "spec_local_step u i j = cfl * min (min dx dy / l) ((dx * dy) / (4 * (rmu / rho)))"
    unfolding spec_local_step_def Let_def l_def z_def x_def y_def ..
  have c: "compute_time_step_cell (rmu / rho) u i j (dt, m) =
    (set2 dt i j (cfl * min ((dx * dy) / (4 * (rmu / rho))) (min dx dy / \<bar>l\<bar>)),
     min m (at2 (set2 dt i j (cfl * min ((dx * dy) / (4 * (rmu / rho))) (min dx dy / \<bar>l\<bar>))) i j))"
    unfolding compute_time_step_cell_def Let_def l_def z_def x_def y_def prod.case ..
  show ?thesis
    unfolding c s a at2_set2_same by (simp only: min.commute)
qed

lemma compute_time_step_cell_snd:
  "snd (compute_time_step_cell (rmu / rho) u i j (dt, m)) = min m (spec_local_step u i j)"
  unfolding compute_time_step_cell_eq by simp

lemma time_step_cells:
  assumes "grid2 dt" "distinct cs" "\<forall>(a, b) \<in> set cs. 0 \<le> b \<and> b < jmax" "0 \<le> j" "j < jmax"
  shows "grid2 (fst (fold (\<lambda>(i, j). compute_time_step_cell (rmu / rho) u i j) cs (dt, m))) \<and>
    at2 (fst (fold (\<lambda>(i, j). compute_time_step_cell (rmu / rho) u i j) cs (dt, m))) i j =
      (if (i, j) \<in> set cs then spec_local_step u i j else at2 dt i j)"
  using assms(1-3)
proof (induction cs arbitrary: dt m)
  case Nil
  then show ?case by simp
next
  case (Cons c cs)
  obtain a b where c: "c = (a, b)" by (cases c)
  let ?dt = "set2 dt a b (spec_local_step u a b)"
  have b: "0 \<le> b" "b < jmax" using Cons.prems(3) c by auto
  have g: "grid2 ?dt" using Cons.prems(1) by simp
  have n: "(i, j) \<noteq> (a, b)" if "(i, j) \<in> set cs" using that Cons.prems(2) c by auto
  have v: "at2 ?dt i j = (if i = a \<and> j = b then spec_local_step u a b else at2 dt i j)"
    using at2_set2 [OF Cons.prems(1) b assms(4,5), of a _ i] by auto
  have f: "fold (\<lambda>(i, j). compute_time_step_cell (rmu / rho) u i j) (c # cs) (dt, m) =
     fold (\<lambda>(i, j). compute_time_step_cell (rmu / rho) u i j) cs
       (?dt, min m (spec_local_step u a b))"
    unfolding c by (simp only: fold_simps prod.case compute_time_step_cell_eq)
  show ?case
    unfolding f using Cons.IH [OF g, of "min m (spec_local_step u a b)"] Cons.prems(2,3) c n v
    by auto
qed

lemma rows_loop:
  assumes "grid2 dt" "0 \<le> j" "j < jmax"
  shows "grid2 (fold (\<lambda>i dt. set2 (set2 dt i 0 c) i (jmax - 1) c) xs dt) \<and>
    at2 (fold (\<lambda>i dt. set2 (set2 dt i 0 c) i (jmax - 1) c) xs dt) i j =
      (if i \<in> set xs \<and> (j = 0 \<or> j = jmax - 1) then c else at2 dt i j)"
  using assms(1)
proof (induction xs arbitrary: dt)
  case Nil
  then show ?case by simp
next
  case (Cons x xs)
  have r: "(0::int) \<le> 0" "(0::int) < jmax" "0 \<le> jmax - 1" "jmax - 1 < jmax"
    by (simp_all add: jmax_def)
  have g: "grid2 (set2 (set2 dt x 0 c) x (jmax - 1) c)" using Cons.prems by simp
  have "at2 (set2 (set2 dt x 0 c) x (jmax - 1) c) i j =
      (if i = x \<and> (j = 0 \<or> j = jmax - 1) then c else at2 dt i j)"
    using Cons.prems assms(2,3) r by (auto simp: at2_set2)
  then show ?case using Cons.IH [OF g] by auto
qed

lemma columns_loop:
  assumes "grid2 dt" "0 \<le> j" "j < jmax" "\<forall>b \<in> set xs. 0 \<le> b \<and> b < jmax"
  shows "grid2 (fold (\<lambda>j dt. set2 (set2 dt 0 j c) (imax - 1) j c) xs dt) \<and>
    at2 (fold (\<lambda>j dt. set2 (set2 dt 0 j c) (imax - 1) j c) xs dt) i j =
      (if j \<in> set xs \<and> (i = 0 \<or> i = imax - 1) then c else at2 dt i j)"
  using assms(1,4)
proof (induction xs arbitrary: dt)
  case Nil
  then show ?case by simp
next
  case (Cons x xs)
  have x: "0 \<le> x" "x < jmax" using Cons.prems(2) by auto
  have g: "grid2 (set2 (set2 dt 0 x c) (imax - 1) x c)" using Cons.prems by simp
  have "at2 (set2 (set2 dt 0 x c) (imax - 1) x c) i j =
      (if j = x \<and> (i = 0 \<or> i = imax - 1) then c else at2 dt i j)"
    using Cons.prems(1) assms(2,3) x by (auto simp: at2_set2)
  then show ?case using Cons.IH [OF g] Cons.prems(2) by auto
qed

lemma compute_time_step_dt:
  assumes "grid2 dt" "0 \<le> j" "j < jmax"
  shows "grid2 (fst (compute_time_step u dt m)) \<and>
    at2 (fst (compute_time_step u dt m)) i j =
      (if interior i j then spec_local_step u i j
       else if in_domain i j then snd (compute_time_step u dt m)
       else at2 dt i j)"
proof -
  let ?cs = "List.product [1..imax - 2] [1..jmax - 2]"
  let ?p = "fold (\<lambda>(i, j). compute_time_step_cell (rmu / rho) u i j) ?cs (dt, m)"
  have d: "distinct ?cs" by (simp add: distinct_product)
  have r: "\<forall>(a, b) \<in> set ?cs. 0 \<le> b \<and> b < jmax" by auto
  have c: "\<forall>b \<in> set [0..jmax - 1]. 0 \<le> b \<and> b < jmax" by auto
  note 1 = time_step_cells [OF assms(1) d r assms(2,3), of u m i]
  note 2 = rows_loop [OF conjunct1 [OF 1] assms(2,3), of "snd ?p" "[0..imax - 1]" i]
  note 3 = columns_loop [OF conjunct1 [OF 2] assms(2,3) c, of "snd ?p" i]
  have e: "compute_time_step u dt m =
    (fold (\<lambda>j dt. set2 (set2 dt 0 j (snd ?p)) (imax - 1) j (snd ?p)) [0..jmax - 1]
      (fold (\<lambda>i dt. set2 (set2 dt i 0 (snd ?p)) i (jmax - 1) (snd ?p)) [0..imax - 1] (fst ?p)),
     snd ?p)"
    unfolding compute_time_step_def Let_def
    by (simp only: fun_cong [OF fold_nested] split_def)
  show ?thesis
    unfolding e fst_conv snd_conv
    using 1 2 3 assms(2,3) by (auto simp: interior_def in_domain_def imax_def jmax_def)
qed

lemma compute_time_step_dtmin:
  "snd (compute_time_step u dt m) =
    fold (\<lambda>(i, j) m. min m (spec_local_step u i j)) (List.product [1..imax - 2] [1..jmax - 2]) m"
proof -
  have "snd (fold (\<lambda>(i, j). compute_time_step_cell (rmu / rho) u i j) cs (dt, m)) =
    fold (\<lambda>(i, j) m. min m (spec_local_step u i j)) cs m" for cs
  proof (induction cs arbitrary: dt m)
    case Nil
    then show ?case by simp
  next
    case (Cons c cs)
    obtain a b where c: "c = (a, b)" by (cases c)
    obtain dt' m' where e: "compute_time_step_cell (rmu / rho) u a b (dt, m) = (dt', m')"
      by (cases "compute_time_step_cell (rmu / rho) u a b (dt, m)")
    have "m' = min m (spec_local_step u a b)"
      using compute_time_step_cell_snd [of u a b dt m] e by simp
    then show ?case using Cons.IH [of dt' m'] c e by simp
  qed
  then show ?thesis
    unfolding compute_time_step_def Let_def
    by (simp only: fun_cong [OF fold_nested] split_def snd_conv)
qed

lemma fold_min_le: "fold (\<lambda>(i, j) m. min m (g i j)) cs (m::real) \<le> m"
proof (induction cs arbitrary: m)
  case Nil
  then show ?case by simp
next
  case (Cons c cs)
  obtain a b where c: "c = (a, b)" by (cases c)
  show ?case using Cons.IH [of "min m (g a b)"] c by simp
qed

lemma fold_min_keep:
  assumes "\<forall>(i, j) \<in> set cs. m \<le> g i j"
  shows "fold (\<lambda>(i, j) m. min m (g i j)) cs (m::real) = m"
  using assms by (induction cs) (auto simp: min_def)

lemma spec_local_step_at_rest:
  assumes "at3 u i j 1 = 0" "at3 u i j 2 = 0"
  shows "spec_local_step u i j = 9 / 10 * min ((1 / 1280) / (sqrt (2 / 5) / 2)) (5 / 16384)"
    and "0 < spec_local_step u i j"
proof -
  show e: "spec_local_step u i j = 9 / 10 * min ((1 / 1280) / (sqrt (2 / 5) / 2)) (5 / 16384)"
    by (simp add: spec_local_step_def assms rkappa_def vel2ref_def uinf_def cfl_def dx_def dy_def
        xmax_def xmin_def ymax_def ymin_def imax_def jmax_def rmu_def rho_def rlength_def Re_c_def)
  have "0 < sqrt (2 / 5 :: real)" by simp
  then have "0 < (1 / 1280) / (sqrt (2 / 5 :: real) / 2)" by simp
  then show "0 < spec_local_step u i j" unfolding e by (simp add: min_def)
qed

lemma spec_local_step_rest: "1 / 10 ^ 9 < spec_local_step rest_field i j"
proof -
  have a: "at3 rest_field a b c = 0" for a b c by (simp add: at3_def rest_field_def)
  have s: "sqrt (2 / 5 :: real) \<le> 2"
    by (rule order_trans [of _ 1]) simp_all
  have p: "0 < sqrt (2 / 5 :: real)" by simp
  have "(1 / 1280 :: real) \<le> (1 / 1280) / (sqrt (2 / 5) / 2)"
    using p by (simp add: field_simps s)
  then have "1 / 10 ^ 9 < (9 / 10 :: real) * min ((1 / 1280) / (sqrt (2 / 5) / 2)) (5 / 16384)"
    by (simp add: min_def)
  then show ?thesis
    unfolding spec_local_step_at_rest(1) [OF a a] .
qed

text \<open>
  Claim C4, on the code. Called on the field at rest with \<open>dtmin = 1e-9\<close> on entry (the
  caller's variable, which the driver initialises once before its loop and never
  resets), \<open>compute_time_step\<close> returns \<open>dtmin = 1e-9\<close> and stores it in the border
  cells of \<open>dt\<close>, although the local step of every cell of that field is larger: the
  returned value is the minimum of the entry value and the interior steps, a running
  minimum, never above the entry value.
\<close>

theorem compute_time_step_running_minimum:
  "snd (compute_time_step rest_field zero2 (1 / 10 ^ 9)) = 1 / 10 ^ 9 \<and>
   at2 (fst (compute_time_step rest_field zero2 (1 / 10 ^ 9))) 0 7 = 1 / 10 ^ 9 \<and>
   1 / 10 ^ 9 < spec_local_step rest_field i j \<and>
   snd (compute_time_step u dt m) \<le> m"
proof -
  have "\<forall>(i, j) \<in> set (List.product [1..imax - 2] [1..jmax - 2]).
      1 / 10 ^ 9 \<le> spec_local_step rest_field i j"
    using spec_local_step_rest by (auto intro: less_imp_le)
  then have 1: "snd (compute_time_step rest_field zero2 (1 / 10 ^ 9)) = 1 / 10 ^ 9"
    unfolding compute_time_step_dtmin by (rule fold_min_keep)
  have g: "grid2 zero2" by (simp add: grid2_def zero2_def)
  have r: "(0::int) \<le> 7" "7 < jmax" "\<not> interior 0 7" "in_domain 0 7"
    by (simp_all add: interior_def in_domain_def imax_def jmax_def)
  have 2: "at2 (fst (compute_time_step rest_field zero2 (1 / 10 ^ 9))) 0 7 = 1 / 10 ^ 9"
    using compute_time_step_dt [OF g r(1,2), of rest_field "1 / 10 ^ 9" 0] r(3,4) 1 by simp
  have 3: "snd (compute_time_step u dt m) \<le> m"
    unfolding compute_time_step_dtmin by (rule fold_min_le)
  show ?thesis
    using 1 2 3 spec_local_step_rest [of i j] by simp
qed

section \<open>The artificial dissipation operator\<close>

lemma cav_keeps_log [simp]: "cav_keeps i j a b (cav_log c ts s) = cav_keeps i j a b s"
  by (simp add: cav_keeps_def cav_log_def)

lemma cav_keeps_locals [simp]:
  "cav_keeps i j a b (s\<lparr>cv_beta2 := x, cv_lambda_x := y, cv_lambda_y := z\<rparr>) =
   cav_keeps i j a b s"
  by (simp add: cav_keeps_def)

lemma cav_keeps_store:
  assumes "cav_keeps i0 j0 a b s" "0 \<le> j0" "j0 < jmax" "0 \<le> j" "j < jmax"
    and "i \<noteq> i0 \<or> j \<noteq> j0"
  shows "cav_keeps i0 j0 a b (cav_store i j x y s)"
  using assms by (auto simp: cav_keeps_def cav_store_def at2_set2)

lemma cav_keeps_store_log:
  assumes "cav_keeps i0 j0 a b s" "0 \<le> j0" "j0 < jmax" "0 \<le> j" "j < jmax"
    and "i \<noteq> i0 \<or> j \<noteq> j0"
  shows "cav_keeps i0 j0 a b (cav_store i j x y (cav_log c ts s))"
  by (rule cav_keeps_store) (use assms in simp_all)

lemma cav_interior_keeps:
  assumes "cav_keeps i0 j0 a b s" "0 \<le> j0" "j0 < jmax" "0 \<le> j" "j < jmax"
    and "i \<noteq> i0 \<or> j \<noteq> j0"
  shows "cav_keeps i0 j0 a b (cav_interior u uvel2 i j s)"
  unfolding cav_interior_def Let_def
  by (rule cav_keeps_store) (use assms in simp_all)

lemma cav_interior_zero:
  assumes "grid2 (cv_viscx s)" "grid2 (cv_viscy s)"
  shows "cav_keeps i j 0 0 (cav_interior u uvel2 i j s)"
  using assms by (simp add: cav_interior_def Let_def cav_keeps_def cav_store_def)

lemma cav_corners_keeps:
  assumes "cav_keeps i0 j0 a b s" "0 \<le> j0" "j0 < jmax"
    and "\<not> cav_written i0 j0 \<or> (2 \<le> i0 \<and> i0 \<le> imax - 4 \<and> 2 \<le> j0 \<and> j0 \<le> jmax - 4)"
  shows "cav_keeps i0 j0 a b (cav_corners u s)"
proof -
  have r: "(0::int) \<le> 1" "(1::int) < jmax" "0 \<le> jmax - 2" "jmax - 2 < jmax"
    by (simp_all add: jmax_def)
  have n: "1 \<noteq> i0 \<or> 1 \<noteq> j0" "1 \<noteq> i0 \<or> jmax - 2 \<noteq> j0"
    "imax - 2 \<noteq> i0 \<or> 1 \<noteq> j0" "imax - 2 \<noteq> i0 \<or> jmax - 2 \<noteq> j0"
    using assms(4) by (auto simp: cav_written_def imax_def jmax_def)
  show ?thesis
    unfolding cav_corners_def Let_def
    by (intro cav_keeps_store_log assms(1,2,3) r n)
qed

lemma cav_left_right_keeps:
  assumes "cav_keeps i0 j0 a b s" "0 \<le> j0" "j0 < jmax" "2 \<le> j" "j \<le> jmax - 2"
    and "\<not> cav_written i0 j0 \<or> (2 \<le> i0 \<and> i0 \<le> imax - 4 \<and> 2 \<le> j0 \<and> j0 \<le> jmax - 4)"
  shows "cav_keeps i0 j0 a b (cav_left_right u j s)"
proof -
  have r: "0 \<le> j" "j < jmax" using assms(4,5) by simp_all
  have n: "imax - 2 \<noteq> i0 \<or> j \<noteq> j0"
    using assms(4-) by (auto simp: cav_written_def imax_def jmax_def)
  show ?thesis
    unfolding cav_left_right_def Let_def
    by (rule cav_keeps_store [OF _ assms(2,3) r n]) (simp add: assms(1))
qed

lemma cav_bottom_top_keeps:
  assumes "cav_keeps i0 j0 a b s" "0 \<le> j0" "j0 < jmax" "2 \<le> i" "i \<le> imax - 2"
    and "\<not> cav_written i0 j0 \<or> (2 \<le> i0 \<and> i0 \<le> imax - 4 \<and> 2 \<le> j0 \<and> j0 \<le> jmax - 4)"
  shows "cav_keeps i0 j0 a b (cav_bottom_top u i s)"
proof -
  have r: "0 \<le> jmax - 2" "jmax - 2 < jmax" by (simp_all add: jmax_def)
  have n: "i \<noteq> i0 \<or> jmax - 2 \<noteq> j0"
    using assms(4-) by (auto simp: cav_written_def imax_def jmax_def)
  show ?thesis
    unfolding cav_bottom_top_def Let_def
    by (rule cav_keeps_store [OF _ assms(2,3) r n]) (simp add: assms(1))
qed

lemma cav_boundary_keeps:
  assumes "cav_keeps i0 j0 a b s" "0 \<le> j0" "j0 < jmax"
    and "\<not> cav_written i0 j0 \<or> (2 \<le> i0 \<and> i0 \<le> imax - 4 \<and> 2 \<le> j0 \<and> j0 \<le> jmax - 4)"
  shows "cav_keeps i0 j0 a b
    (fold (cav_bottom_top u) [2..imax - 2] (fold (cav_left_right u) [2..jmax - 2] (cav_corners u s)))"
proof -
  have 1: "cav_keeps i0 j0 a b (cav_corners u s)"
    by (rule cav_corners_keeps [OF assms])
  have 2: "cav_keeps i0 j0 a b (fold (cav_left_right u) [2..jmax - 2] (cav_corners u s))"
    by (rule fold_invariant [where Q = "\<lambda>j. 2 \<le> j \<and> j \<le> jmax - 2"])
      (use 1 assms(2-) in \<open>auto intro: cav_left_right_keeps\<close>)
  show ?thesis
    by (rule fold_invariant [where Q = "\<lambda>i. 2 \<le> i \<and> i \<le> imax - 2"])
      (use 2 assms(2-) in \<open>auto intro: cav_bottom_top_keeps\<close>)
qed

lemma Compute_Artificial_Viscosity_flat:
  "Compute_Artificial_Viscosity l u viscx viscy =
    fold (cav_bottom_top u) [2..imax - 2] (fold (cav_left_right u) [2..jmax - 2] (cav_corners u
      (fold (\<lambda>(i, j). cav_interior u (uvel2_0 l) i j) (List.product [2..imax - 4] [2..jmax - 4])
        \<lparr>cv_viscx = viscx, cv_viscy = viscy, cv_beta2 = beta2_0 l,
          cv_lambda_x = lambda_x_0 l, cv_lambda_y = lambda_y_0 l, cv_reads = []\<rparr>)))"
  unfolding Compute_Artificial_Viscosity_def Let_def
  by (simp only: fun_cong [OF fold_nested])

lemma Compute_Artificial_Viscosity_unwritten:
  assumes "grid2 viscx" "grid2 viscy" "0 \<le> j" "j < jmax" "\<not> cav_written i j"
  shows "cav_keeps i j (at2 viscx i j) (at2 viscy i j)
    (Compute_Artificial_Viscosity l u viscx viscy)"
proof -
  let ?s0 = "\<lparr>cv_viscx = viscx, cv_viscy = viscy, cv_beta2 = beta2_0 l,
          cv_lambda_x = lambda_x_0 l, cv_lambda_y = lambda_y_0 l, cv_reads = []\<rparr>"
  have 0: "cav_keeps i j (at2 viscx i j) (at2 viscy i j) ?s0"
    using assms(1,2) by (simp add: cav_keeps_def)
  have 1: "cav_keeps i j (at2 viscx i j) (at2 viscy i j)
    (fold (\<lambda>(i, j). cav_interior u (uvel2_0 l) i j) (List.product [2..imax - 4] [2..jmax - 4]) ?s0)"
  proof (rule fold_invariant [where Q = "\<lambda>(a, b). 2 \<le> a \<and> a \<le> imax - 4 \<and> 2 \<le> b \<and> b \<le> jmax - 4"])
    show "cav_keeps i j (at2 viscx i j) (at2 viscy i j) ?s0" by (rule 0)
  next
    fix x assume "x \<in> set (List.product [2..imax - 4] [2..jmax - 4])"
    then show "case x of (a, b) \<Rightarrow> 2 \<le> a \<and> a \<le> imax - 4 \<and> 2 \<le> b \<and> b \<le> jmax - 4"
      by auto
  next
    fix x s
    assume x: "case x of (a, b) \<Rightarrow> 2 \<le> a \<and> a \<le> imax - 4 \<and> 2 \<le> b \<and> b \<le> jmax - 4"
      and s: "cav_keeps i j (at2 viscx i j) (at2 viscy i j) s"
    obtain a b where ab: "x = (a, b)" by (cases x)
    have "a \<noteq> i \<or> b \<noteq> j" using x ab assms(5) by (auto simp: cav_written_def)
    moreover have "0 \<le> b" "b < jmax" using x ab by auto
    ultimately show "cav_keeps i j (at2 viscx i j) (at2 viscy i j)
        ((case x of (i, j) \<Rightarrow> cav_interior u (uvel2_0 l) i j) s)"
      using s assms(3,4) ab by (simp add: cav_interior_keeps)
  qed
  show ?thesis
    unfolding Compute_Artificial_Viscosity_flat
    by (rule cav_boundary_keeps [OF 1 assms(3,4)]) (simp add: assms(5))
qed

lemma Compute_Artificial_Viscosity_interior_zero:
  assumes "grid2 viscx" "grid2 viscy" "2 \<le> i" "i \<le> imax - 4" "2 \<le> j" "j \<le> jmax - 4"
  shows "cav_keeps i j 0 0 (Compute_Artificial_Viscosity l u viscx viscy)"
proof -
  let ?s0 = "\<lparr>cv_viscx = viscx, cv_viscy = viscy, cv_beta2 = beta2_0 l,
          cv_lambda_x = lambda_x_0 l, cv_lambda_y = lambda_y_0 l, cv_reads = []\<rparr>"
  let ?I = "\<lambda>s::cav_state. grid2 (cv_viscx s) \<and> grid2 (cv_viscy s)"
  have j: "0 \<le> j" "j < jmax" using assms(5,6) by simp_all
  have "?I (fold (\<lambda>(i, j). cav_interior u (uvel2_0 l) i j) (List.product [2..imax - 4] [2..jmax - 4]) ?s0)
    \<and> cav_keeps i j 0 0
    (fold (\<lambda>(i, j). cav_interior u (uvel2_0 l) i j) (List.product [2..imax - 4] [2..jmax - 4]) ?s0)"
  proof (rule fold_establish [where x = "(i, j)"])
    show "(i, j) \<in> set (List.product [2..imax - 4] [2..jmax - 4])"
      using assms(3-) by simp
    show "?I ?s0" using assms(1,2) by simp
  next
    fix y s
    assume "?I s"
    then show "?I ((case y of (i, j) \<Rightarrow> cav_interior u (uvel2_0 l) i j) s)"
      by (cases y) (simp add: cav_interior_def Let_def cav_store_def)
  next
    fix s assume "?I s"
    then show "cav_keeps i j 0 0 ((case (i, j) of (i, j) \<Rightarrow> cav_interior u (uvel2_0 l) i j) s)"
      by (simp add: cav_interior_zero)
  next
    fix y s
    assume y: "y \<in> set (List.product [2..imax - 4] [2..jmax - 4])" and "?I s"
      and k: "cav_keeps i j 0 0 s"
    obtain a b where ab: "y = (a, b)" by (cases y)
    show "cav_keeps i j 0 0 ((case y of (i, j) \<Rightarrow> cav_interior u (uvel2_0 l) i j) s)"
    proof (cases "a = i \<and> b = j")
      case True
      then show ?thesis using \<open>?I s\<close> ab by (simp add: cav_interior_zero)
    next
      case False
      moreover have "0 \<le> b" "b < jmax" using y ab by auto
      ultimately show ?thesis using k j ab by (simp add: cav_interior_keeps)
    qed
  qed
  then have 1: "cav_keeps i j 0 0
    (fold (\<lambda>(i, j). cav_interior u (uvel2_0 l) i j) (List.product [2..imax - 4] [2..jmax - 4]) ?s0)"
    by simp
  show ?thesis
    unfolding Compute_Artificial_Viscosity_flat
    by (rule cav_boundary_keeps [OF 1 j]) (use assms(3-) in simp)
qed

lemma at3_spike_field:
  "at3 spike_field i j k = (if i * 195 + j * 3 + k = 1980 then 1 else 0)"
  by (simp add: at3_def idx3_def spike_field_def jmax_def neq_def)

lemma spec_visc_spike:
  "spec_viscx spike_field 10 10 < 0" "spec_viscy spike_field 10 10 < 0"
proof -
  have s: "0 < sqrt (2 / 5 :: real)" by simp
  have x: "spec_viscx spike_field 10 10 = - (sqrt (2 / 5) * 384)"
    by (simp add: spec_viscx_def at3_spike_field rkappa_def vel2ref_def uinf_def Cx_def dx_def
        xmax_def xmin_def imax_def power3_eq_cube power4_eq_xxxx)
  have y: "spec_viscy spike_field 10 10 = - (sqrt (2 / 5) * 384)"
    by (simp add: spec_viscy_def at3_spike_field rkappa_def vel2ref_def uinf_def Cy_def dy_def
        ymax_def ymin_def jmax_def power3_eq_cube power4_eq_xxxx)
  show "spec_viscx spike_field 10 10 < 0" "spec_viscy spike_field 10 10 < 0"
    using s unfolding x y by simp_all
qed

text \<open>
  Claim C1, on the code. At the interior cell (10, 10) of a field whose pressure has a
  non-zero fourth difference there, the code stores 0 in both dissipation arrays, since
  its wave speeds are formed with the integer quotient \<open>1 / 2 = 0\<close>, whereas the terms
  the claim states are negative; and the cell \<open>(imax - 3, 10)\<close>, inside the claimed
  range, is not stored to at all.
\<close>

theorem Compute_Artificial_Viscosity_spike:
  "at2 (cv_viscx (Compute_Artificial_Viscosity l spike_field sevens2 sevens2)) 10 10 = 0 \<and>
   spec_viscx spike_field 10 10 < 0 \<and>
   at2 (cv_viscy (Compute_Artificial_Viscosity l spike_field sevens2 sevens2)) 10 10 = 0 \<and>
   spec_viscy spike_field 10 10 < 0 \<and>
   at2 (cv_viscx (Compute_Artificial_Viscosity l spike_field sevens2 sevens2)) (imax - 3) 10 = 7"
proof -
  have g: "grid2 sevens2" by (simp add: grid2_def sevens2_def)
  have r: "(2::int) \<le> 10" "10 \<le> imax - 4" "10 \<le> jmax - 4" "(0::int) \<le> 10" "10 < jmax"
    by (simp_all add: imax_def jmax_def)
  have w: "\<not> cav_written (imax - 3) 10"
    by (simp add: cav_written_def imax_def jmax_def)
  have 1: "cav_keeps 10 10 0 0 (Compute_Artificial_Viscosity l spike_field sevens2 sevens2)"
    by (rule Compute_Artificial_Viscosity_interior_zero [OF g g r(1,2) r(1,3)])
  have 2: "cav_keeps (imax - 3) 10 (at2 sevens2 (imax - 3) 10) (at2 sevens2 (imax - 3) 10)
      (Compute_Artificial_Viscosity l spike_field sevens2 sevens2)"
    by (rule Compute_Artificial_Viscosity_unwritten [OF g g r(4,5) w])
  have 3: "at2 sevens2 (imax - 3) 10 = 7" by (simp add: at2_def sevens2_def)
  show ?thesis
    using 1 2 spec_visc_spike unfolding 3 cav_keeps_def by simp
qed

lemma cv_reads_store [simp]: "cv_reads (cav_store i j x y s) = cv_reads s"
  by (simp add: cav_store_def)

lemma cav_left_right_reads:
  "x \<in> set (cv_reads s) \<Longrightarrow> x \<in> set (cv_reads (cav_left_right u j s))"
  by (simp add: cav_left_right_def Let_def cav_log_def)

lemma cav_bottom_top_reads:
  "x \<in> set (cv_reads s) \<Longrightarrow> x \<in> set (cv_reads (cav_bottom_top u i s))"
  by (simp add: cav_bottom_top_def Let_def cav_log_def)

lemma cav_left_right_last:
  "(Left_wall, 2, jmax, 0) \<in> set (cv_reads (cav_left_right u (jmax - 2) s))"
  "(Right_wall, imax - 2, jmax, 0) \<in> set (cv_reads (cav_left_right u (jmax - 2) s))"
  by (simp_all add: cav_left_right_def Let_def cav_log_def)

lemma cav_bottom_top_last:
  "(Bottom_wall, imax, 2, 0) \<in> set (cv_reads (cav_bottom_top u (imax - 2) s))"
  "(Top_wall, imax, jmax - 2, 0) \<in> set (cv_reads (cav_bottom_top u (imax - 2) s))"
  by (simp_all add: cav_bottom_top_def Let_def cav_log_def)

lemma wall_loops_reads:
  "(Left_wall, 2, jmax, 0) \<in> set (cv_reads
     (fold (cav_bottom_top u) [2..imax - 2] (fold (cav_left_right u) [2..jmax - 2] s)))"
  "(Right_wall, imax - 2, jmax, 0) \<in> set (cv_reads
     (fold (cav_bottom_top u) [2..imax - 2] (fold (cav_left_right u) [2..jmax - 2] s)))"
  "(Bottom_wall, imax, 2, 0) \<in> set (cv_reads
     (fold (cav_bottom_top u) [2..imax - 2] (fold (cav_left_right u) [2..jmax - 2] s)))"
  "(Top_wall, imax, jmax - 2, 0) \<in> set (cv_reads
     (fold (cav_bottom_top u) [2..imax - 2] (fold (cav_left_right u) [2..jmax - 2] s)))"
proof -
  have j: "jmax - 2 \<in> set [2..jmax - 2]" and i: "imax - 2 \<in> set [2..imax - 2]"
    by (simp_all add: imax_def jmax_def)
  have l: "x \<in> set (cv_reads (fold (cav_left_right u) [2..jmax - 2] s))"
    if "\<And>s. x \<in> set (cv_reads (cav_left_right u (jmax - 2) s))" for x
    using fold_establish [where I = "\<lambda>_. True" and f = "cav_left_right u"
        and P = "\<lambda>s. x \<in> set (cv_reads s)", OF j] that cav_left_right_reads
    by blast
  have b: "x \<in> set (cv_reads (fold (cav_bottom_top u) [2..imax - 2] s))"
    if "\<And>s. x \<in> set (cv_reads (cav_bottom_top u (imax - 2) s))" for x s
    using fold_establish [where I = "\<lambda>_. True" and f = "cav_bottom_top u"
        and P = "\<lambda>s. x \<in> set (cv_reads s)", OF i] that cav_bottom_top_reads
    by blast
  have k: "x \<in> set (cv_reads (fold (cav_bottom_top u) [2..imax - 2] s))"
    if "x \<in> set (cv_reads s)" for x s
    by (rule fold_invariant [where Q = "\<lambda>_. True"]) (use that cav_bottom_top_reads in auto)
  show "(Left_wall, 2, jmax, 0) \<in> set (cv_reads
     (fold (cav_bottom_top u) [2..imax - 2] (fold (cav_left_right u) [2..jmax - 2] s)))"
    by (rule k, rule l) (rule cav_left_right_last)
  show "(Right_wall, imax - 2, jmax, 0) \<in> set (cv_reads
     (fold (cav_bottom_top u) [2..imax - 2] (fold (cav_left_right u) [2..jmax - 2] s)))"
    by (rule k, rule l) (rule cav_left_right_last)
  show "(Bottom_wall, imax, 2, 0) \<in> set (cv_reads
     (fold (cav_bottom_top u) [2..imax - 2] (fold (cav_left_right u) [2..jmax - 2] s)))"
    by (rule b) (rule cav_bottom_top_last)
  show "(Top_wall, imax, jmax - 2, 0) \<in> set (cv_reads
     (fold (cav_bottom_top u) [2..imax - 2] (fold (cav_left_right u) [2..jmax - 2] s)))"
    by (rule b) (rule cav_bottom_top_last)
qed

text \<open>
  Claim C2, on the code. Whatever the field, the wall loops of
  \<open>Compute_Artificial_Viscosity\<close> read the pressure at \<open>(2, jmax)\<close> and
  \<open>(imax - 2, jmax)\<close> (the central y-stencil at \<open>j = jmax - 2\<close>) and at \<open>(imax, 2)\<close>
  and \<open>(imax, jmax - 2)\<close> (the central x-stencil at \<open>i = imax - 2\<close>). None of these
  is in the domain, and the last two lie beyond the end of the buffer.
\<close>

theorem Compute_Artificial_Viscosity_reads_outside:
  "(Left_wall, 2, jmax, 0) \<in> set (cv_reads (Compute_Artificial_Viscosity l u viscx viscy)) \<and>
   (Right_wall, imax - 2, jmax, 0) \<in> set (cv_reads (Compute_Artificial_Viscosity l u viscx viscy)) \<and>
   (Bottom_wall, imax, 2, 0) \<in> set (cv_reads (Compute_Artificial_Viscosity l u viscx viscy)) \<and>
   (Top_wall, imax, jmax - 2, 0) \<in> set (cv_reads (Compute_Artificial_Viscosity l u viscx viscy)) \<and>
   \<not> in_domain 2 jmax \<and> \<not> in_domain (imax - 2) jmax \<and>
   \<not> in_domain imax 2 \<and> \<not> in_domain imax (jmax - 2) \<and>
   \<not> in_alloc3 rest_field (idx3 rest_field imax 2 0) \<and>
   \<not> in_alloc3 rest_field (idx3 rest_field imax (jmax - 2) 0)"
proof -
  have "\<not> in_domain 2 jmax \<and> \<not> in_domain (imax - 2) jmax \<and>
   \<not> in_domain imax 2 \<and> \<not> in_domain imax (jmax - 2) \<and>
   \<not> in_alloc3 rest_field (idx3 rest_field imax 2 0) \<and>
   \<not> in_alloc3 rest_field (idx3 rest_field imax (jmax - 2) 0)"
    by (simp add: in_domain_def in_alloc3_def idx3_def rest_field_def imax_def jmax_def neq_def)
  then show ?thesis
    unfolding Compute_Artificial_Viscosity_flat using wall_loops_reads by blast
qed

section \<open>The Point-Jacobi scheme\<close>

lemma grid3_PJ_cell [simp]: "grid3 (PJ_cell uold viscx viscy dt s i j u) = grid3 u"
  unfolding PJ_cell_def Let_def by (simp only: grid3_set3)

lemma PJ_cell_writes:
  "\<exists>a b c. \<forall>u. PJ_cell uold viscx viscy dt s i j u =
     set3 (set3 (set3 u i j 0 a) i j 1 b) i j 2 c"
  unfolding PJ_cell_def Let_def by (intro exI allI) (rule refl)

lemma PJ_cell_other:
  assumes "grid3 u" "0 \<le> j" "j < jmax" "0 \<le> j'" "j' < jmax" "0 \<le> k'" "k' < neq"
    and "i' \<noteq> i \<or> j' \<noteq> j"
  shows "at3 (PJ_cell uold viscx viscy dt s i j u) i' j' k' = at3 u i' j' k'"
proof -
  obtain a b c where "PJ_cell uold viscx viscy dt s i j u =
     set3 (set3 (set3 u i j 0 a) i j 1 b) i j 2 c"
    using PJ_cell_writes by blast
  then show ?thesis
    using assms(8) by (auto simp: at3_set3_triple [OF assms(1-7)])
qed

lemma PJ_cell_indep:
  assumes "grid3 u" "grid3 u'" "0 \<le> j" "j < jmax" "0 \<le> k" "k < neq"
  shows "at3 (PJ_cell uold viscx viscy dt s i j u) i j k =
         at3 (PJ_cell uold viscx viscy dt s i j u') i j k"
proof -
  obtain a b c where e: "\<And>u. PJ_cell uold viscx viscy dt s i j u =
     set3 (set3 (set3 u i j 0 a) i j 1 b) i j 2 c"
    using PJ_cell_writes by blast
  show ?thesis
    unfolding e
    by (simp add: at3_set3_triple [OF assms(1) assms(3,4) assms(3-)]
        at3_set3_triple [OF assms(2) assms(3,4) assms(3-)])
qed

lemma PJ_cells:
  assumes "grid3 u" "distinct cs" "\<forall>(i, j) \<in> set cs. 0 \<le> j \<and> j < jmax"
    and "0 \<le> j'" "j' < jmax" "0 \<le> k'" "k' < neq"
  shows "at3 (fold (\<lambda>(i, j). PJ_cell uold viscx viscy dt s i j) cs u) i' j' k' =
    (if (i', j') \<in> set cs then at3 (PJ_cell uold viscx viscy dt s i' j' u) i' j' k'
     else at3 u i' j' k')"
  using assms(1-3)
proof (induction cs arbitrary: u)
  case Nil
  then show ?case by simp
next
  case (Cons c cs)
  obtain a b where c: "c = (a, b)" by (cases c)
  let ?u1 = "PJ_cell uold viscx viscy dt s a b u"
  have b: "0 \<le> b" "b < jmax" using Cons.prems(3) c by auto
  have g: "grid3 ?u1" using Cons.prems(1) by simp
  have ih: "at3 (fold (\<lambda>(i, j). PJ_cell uold viscx viscy dt s i j) cs ?u1) i' j' k' =
    (if (i', j') \<in> set cs then at3 (PJ_cell uold viscx viscy dt s i' j' ?u1) i' j' k'
     else at3 ?u1 i' j' k')"
    using Cons.IH [OF g] Cons.prems by simp
  show ?case
  proof (cases "(i', j') \<in> set cs")
    case True
    then show ?thesis
      using ih c PJ_cell_indep [OF g Cons.prems(1) assms(4-), of uold viscx viscy dt s i']
      by simp
  next
    case False
    show ?thesis
    proof (cases "i' = a \<and> j' = b")
      case True
      then show ?thesis using ih False c by simp
    next
      case False
      then have "i' \<noteq> a \<or> j' \<noteq> b" by simp
      from PJ_cell_other [OF Cons.prems(1) b assms(4-) this]
      show ?thesis using ih \<open>(i', j') \<notin> set cs\<close> c False by auto
    qed
  qed
qed

lemma point_Jacobi_flat:
  "point_Jacobi u uold viscx viscy dt s =
    fold (\<lambda>(i, j). PJ_cell uold viscx viscy dt s i j) (List.product [1..imax - 2] [1..jmax - 2]) u"
  unfolding point_Jacobi_def by (rule fun_cong [OF fold_nested])

lemma point_Jacobi_cells:
  assumes "grid3 u" "0 \<le> j" "j < jmax" "0 \<le> k" "k < neq"
  shows "at3 (point_Jacobi u uold viscx viscy dt s) i j k =
    (if interior i j then at3 (PJ_cell uold viscx viscy dt s i j u) i j k else at3 u i j k)"
proof -
  have d: "distinct (List.product [1..imax - 2] [1..jmax - 2])"
    by (simp add: distinct_product)
  have r: "\<forall>(i, j) \<in> set (List.product [1..imax - 2] [1..jmax - 2]). 0 \<le> j \<and> j < jmax"
    by auto
  have m: "((i, j) \<in> set (List.product [1..imax - 2] [1..jmax - 2])) = interior i j"
    by (auto simp: interior_def)
  have e: "point_Jacobi u uold viscx viscy dt s =
    fold (\<lambda>(i, j). PJ_cell uold viscx viscy dt s i j) (List.product [1..imax - 2] [1..jmax - 2]) u"
    unfolding point_Jacobi_def by (rule fun_cong [OF fold_nested])
  show ?thesis
    unfolding e PJ_cells [OF assms(1) d r assms(2-)] m ..
qed

lemma grid3_point_Jacobi [simp]: "grid3 (point_Jacobi u uold viscx viscy dt s) = grid3 u"
proof -
  have "grid3 (fold (\<lambda>(i, j). PJ_cell uold viscx viscy dt s i j) cs u) = grid3 u" for cs
    by (induction cs arbitrary: u) (simp_all add: split_def)
  then show ?thesis unfolding point_Jacobi_flat .
qed

lemma PJ_iteration_unfold:
  "PJ_iteration ls bc f =
    (let uold = (fuold f)\<lparr>data3 := data3 (fu f)\<rparr>;
         u = (fu f)\<lparr>data3 := data3 (fuold f)\<rparr>;
         c = Compute_Artificial_Viscosity (fst ls) uold (fviscx f) (fviscy f)
     in f\<lparr>fu := bc (point_Jacobi u uold (cv_viscx c) (cv_viscy c) (fdt f) (fsrc f)),
          fuold := uold, fviscx := cv_viscx c, fviscy := cv_viscy c\<rparr>)"
  by (simp add: PJ_iteration_def swapData3_def Let_def)



lemma PJ_cell_own_steady:
  assumes "grid3 u" "0 \<le> j" "j < jmax"
    and "(at3 uold (i + 1) j 0 - at3 uold (i - 1) j 0) / (2 * dx) = 0"
     "(at3 uold (i + 1) j 1 - at3 uold (i - 1) j 1) / (2 * dx) = 0"
     "(at3 uold (i + 1) j 2 - at3 uold (i - 1) j 2) / (2 * dx) = 0"
     "(at3 uold i (j + 1) 0 - at3 uold i (j - 1) 0) / (2 * dy) = 0"
     "(at3 uold i (j + 1) 1 - at3 uold i (j - 1) 1) / (2 * dy) = 0"
     "(at3 uold i (j + 1) 2 - at3 uold i (j - 1) 2) / (2 * dy) = 0"
     "(at3 uold (i + 1) j 1 - 2 * at3 uold i j 1 + at3 uold (i - 1) j 1) / (dx * dx) = 0"
     "(at3 uold (i + 1) j 2 - 2 * at3 uold i j 2 + at3 uold (i - 1) j 2) / (dx * dx) = 0"
     "(at3 uold i (j + 1) 1 - 2 * at3 uold i j 1 + at3 uold i (j - 1) 1) / (dy * dy) = 0"
     "(at3 uold i (j + 1) 2 - 2 * at3 uold i j 2 + at3 uold i (j - 1) 2) / (dy * dy) = 0"
     "at3 s i j 0 = 0" "at3 s i j 1 = 0" "at3 s i j 2 = 0"
  shows "at3 (PJ_cell uold viscx viscy dt s i j u) i j 0 =
           at3 uold i j 0 +
           max (at3 uold i j 1 * at3 uold i j 1 + at3 uold i j 2 * at3 uold i j 2)
             (rkappa * vel2ref) * at2 dt i j * (at2 viscx i j + at2 viscy i j)"
    and "at3 (PJ_cell uold viscx viscy dt s i j u) i j 1 = at3 uold i j 1"
    and "at3 (PJ_cell uold viscx viscy dt s i j u) i j 2 = at3 uold i j 2"
proof -
  have k: "(0::int) \<le> 0" "(0::int) < neq" "(0::int) \<le> 1" "(1::int) < neq"
    "(0::int) \<le> 2" "(2::int) < neq"
    by (simp_all add: neq_def)
  note t = at3_set3_triple [OF assms(1) assms(2,3) assms(2,3)]
  show "at3 (PJ_cell uold viscx viscy dt s i j u) i j 0 =
           at3 uold i j 0 +
           max (at3 uold i j 1 * at3 uold i j 1 + at3 uold i j 2 * at3 uold i j 2)
             (rkappa * vel2ref) * at2 dt i j * (at2 viscx i j + at2 viscy i j)"
    unfolding PJ_cell_def Let_def t [OF k(1,2)] assms(4-)
    by (simp add: algebra_simps)
  show "at3 (PJ_cell uold viscx viscy dt s i j u) i j 1 = at3 uold i j 1"
    unfolding PJ_cell_def Let_def t [OF k(3,4)] assms(4-)
    by simp
  show "at3 (PJ_cell uold viscx viscy dt s i j u) i j 2 = at3 uold i j 2"
    unfolding PJ_cell_def Let_def t [OF k(5,6)] assms(4-)
    by simp
qed

lemma PJ_cell_own_u:
  assumes "grid3 u" "0 \<le> j" "j < jmax"
  shows "at3 (PJ_cell uold viscx viscy dt s i j u) i j 1 =
    at3 uold i j 1 - at2 dt i j * rhoinv
      * ((rho * at3 uold i j 1 * ((at3 uold (i + 1) j 1 - at3 uold (i - 1) j 1) / (2 * dx)))
         + (rho * at3 uold i j 2 * ((at3 uold i (j + 1) 1 - at3 uold i (j - 1) 1) / (2 * dy)))
         + (at3 uold (i + 1) j 0 - at3 uold (i - 1) j 0) / (2 * dx)
         - rmu * ((at3 uold (i + 1) j 1 - 2 * at3 uold i j 1 + at3 uold (i - 1) j 1) / (dx * dx))
         - rmu * ((at3 uold i (j + 1) 1 - 2 * at3 uold i j 1 + at3 uold i (j - 1) 1) / (dy * dy))
         - at3 s i j 1)"
proof -
  have k: "(0::int) \<le> 1" "(1::int) < neq" by (simp_all add: neq_def)
  show ?thesis
    unfolding PJ_cell_def Let_def at3_set3_triple [OF assms(1) assms(2,3) assms(2,3) k]
    by simp
qed

lemma PJ_iteration_steady_cells:
  assumes "grid3 (fu f)" "grid3 (fuold f)" "steady_state (fu f) (fsrc f)" "interior i j"
  shows "at3 (fu (PJ_iteration ls (\<lambda>u. u) f)) i j 1 = at3 (fu f) i j 1 \<and>
    at3 (fu (PJ_iteration ls (\<lambda>u. u) f)) i j 2 = at3 (fu f) i j 2 \<and>
    at3 (fu (PJ_iteration ls (\<lambda>u. u) f)) i j 0 =
      at3 (fu f) i j 0 +
      max (at3 (fu f) i j 1 * at3 (fu f) i j 1 + at3 (fu f) i j 2 * at3 (fu f) i j 2)
        (rkappa * vel2ref) * at2 (fdt f) i j *
      (at2 (fviscx (PJ_iteration ls (\<lambda>u. u) f)) i j +
       at2 (fviscy (PJ_iteration ls (\<lambda>u. u) f)) i j) \<and>
    fu (PJ_iteration ls bc f) = bc (fu (PJ_iteration ls (\<lambda>u. u) f))"
proof -
  let ?U = "(fuold f)\<lparr>data3 := data3 (fu f)\<rparr>"
  let ?c = "Compute_Artificial_Viscosity (fst ls) ?U (fviscx f) (fviscy f)"
  have a: "at3 ?U a b c = at3 (fu f) a b c" for a b c
    by (rule at3_swapped [OF assms(2,1)])
  have g: "grid3 ((fu f)\<lparr>data3 := data3 (fuold f)\<rparr>)" using assms(1) by simp
  have j: "0 \<le> j" "j < jmax" using assms(4) by (simp_all add: interior_def)
  have m: "i \<in> {1..imax - 2}" "j \<in> {1..jmax - 2}"
    using assms(4) by (simp_all add: interior_def)
  have st: "(at3 ?U (i + 1) j 0 - at3 ?U (i - 1) j 0) / (2 * dx) = 0"
     "(at3 ?U (i + 1) j 1 - at3 ?U (i - 1) j 1) / (2 * dx) = 0"
     "(at3 ?U (i + 1) j 2 - at3 ?U (i - 1) j 2) / (2 * dx) = 0"
     "(at3 ?U i (j + 1) 0 - at3 ?U i (j - 1) 0) / (2 * dy) = 0"
     "(at3 ?U i (j + 1) 1 - at3 ?U i (j - 1) 1) / (2 * dy) = 0"
     "(at3 ?U i (j + 1) 2 - at3 ?U i (j - 1) 2) / (2 * dy) = 0"
     "(at3 ?U (i + 1) j 1 - 2 * at3 ?U i j 1 + at3 ?U (i - 1) j 1) / (dx * dx) = 0"
     "(at3 ?U (i + 1) j 2 - 2 * at3 ?U i j 2 + at3 ?U (i - 1) j 2) / (dx * dx) = 0"
     "(at3 ?U i (j + 1) 1 - 2 * at3 ?U i j 1 + at3 ?U i (j - 1) 1) / (dy * dy) = 0"
     "(at3 ?U i (j + 1) 2 - 2 * at3 ?U i j 2 + at3 ?U i (j - 1) 2) / (dy * dy) = 0"
     "at3 (fsrc f) i j 0 = 0" "at3 (fsrc f) i j 1 = 0" "at3 (fsrc f) i j 2 = 0"
    unfolding a using assms(3) m unfolding steady_state_def by blast+
  note own = PJ_cell_own_steady [OF g j st, of "cv_viscx ?c" "cv_viscy ?c" "fdt f"]
  have k: "(0::int) \<le> 0" "(0::int) < neq" "(0::int) \<le> 1" "(1::int) < neq"
    "(0::int) \<le> 2" "(2::int) < neq"
    by (simp_all add: neq_def)
  have 0: "at3 (fu (PJ_iteration ls (\<lambda>u. u) f)) i j 0 =
      at3 (fu f) i j 0 +
      max (at3 (fu f) i j 1 * at3 (fu f) i j 1 + at3 (fu f) i j 2 * at3 (fu f) i j 2)
        (rkappa * vel2ref) * at2 (fdt f) i j *
      (at2 (fviscx (PJ_iteration ls (\<lambda>u. u) f)) i j +
       at2 (fviscy (PJ_iteration ls (\<lambda>u. u) f)) i j)"
    using own(1) assms(4)
    by (simp add: PJ_iteration_unfold Let_def point_Jacobi_cells [OF g j k(1,2)] a)
  have 1: "at3 (fu (PJ_iteration ls (\<lambda>u. u) f)) i j 1 = at3 (fu f) i j 1"
    using own(2) assms(4)
    by (simp add: PJ_iteration_unfold Let_def point_Jacobi_cells [OF g j k(3,4)] a)
  have 2: "at3 (fu (PJ_iteration ls (\<lambda>u. u) f)) i j 2 = at3 (fu f) i j 2"
    using own(3) assms(4)
    by (simp add: PJ_iteration_unfold Let_def point_Jacobi_cells [OF g j k(5,6)] a)
  have 3: "fu (PJ_iteration ls bc f) = bc (fu (PJ_iteration ls (\<lambda>u. u) f))"
    by (simp add: PJ_iteration_unfold Let_def)
  show ?thesis using 0 1 2 3 by blast
qed

lemma stale_fields_facts:
  "grid3 (fu stale_fields)" "grid3 (fuold stale_fields)"
  "steady_state (fu stale_fields) (fsrc stale_fields)"
  "at3 (fu stale_fields) i j k = 0"
  "at2 (fdt stale_fields) i j = 7" "at2 (fviscx stale_fields) i j = 7"
  "at2 (fviscy stale_fields) i j = 0"
  "grid2 (fviscx stale_fields)" "grid2 (fviscy stale_fields)"
  by (simp_all add: stale_fields_def rest_field_def sevens2_def zero2_def grid3_def grid2_def
      steady_state_def at3_def at2_def)

text \<open>
  Claim C9 as stated fails. The field of zeros is at steady state, yet after one
  Point-Jacobi iteration with the wall boundary conditions the lid cell
  \<open>(1, jmax - 1)\<close> has x-velocity \<open>uinf\<close>, and the pressure of the interior cell
  \<open>(1, 2)\<close>, which the dissipation routine never stores to, has moved by
  \<open>beta2 * dt * (viscx + viscy)\<close> with the values the arrays held on entry.
\<close>

theorem PJ_iteration_steady_counterexample:
  "grid3 (fu stale_fields) \<and> grid3 (fuold stale_fields) \<and>
   steady_state (fu stale_fields) (fsrc stale_fields) \<and>
   at3 (fu (PJ_iteration (locals0, locals0) bndry stale_fields)) 1 (jmax - 1) 1 \<noteq>
     at3 (fu stale_fields) 1 (jmax - 1) 1 \<and>
   at3 (fu (PJ_iteration (locals0, locals0) bndry stale_fields)) 1 2 0 \<noteq>
     at3 (fu stale_fields) 1 2 0"
proof -
  let ?P = "PJ_iteration (locals0, locals0) (\<lambda>u. u) stale_fields"
  note f = stale_fields_facts
  have i: "interior 1 2" by (simp add: interior_def imax_def jmax_def)
  note c = PJ_iteration_steady_cells [OF f(1,2,3) i, of "(locals0, locals0)" bndry]
  have g: "grid3 (fu ?P)"
    using f(1) by (simp add: PJ_iteration_unfold Let_def)
  have top: "at3 (bndry (fu ?P)) 1 (jmax - 1) 1 = uinf"
    using bndry_rows [OF g, of 1] by (simp add: imax_def)
  have w: "\<not> cav_written 1 2" by (simp add: cav_written_def imax_def jmax_def)
  have k: "cav_keeps 1 2 (at2 (fviscx stale_fields) 1 2) (at2 (fviscy stale_fields) 1 2)
     (Compute_Artificial_Viscosity locals0
        ((fuold stale_fields)\<lparr>data3 := data3 (fu stale_fields)\<rparr>)
        (fviscx stale_fields) (fviscy stale_fields))"
    by (rule Compute_Artificial_Viscosity_unwritten [OF f(8,9) _ _ w]) (simp_all add: jmax_def)
  have v: "at2 (fviscx ?P) 1 2 = 7" "at2 (fviscy ?P) 1 2 = 0"
    using k by (simp_all add: PJ_iteration_unfold Let_def cav_keeps_def f)
  have p: "at3 (fu ?P) 1 2 0 = 49 / 10"
    using c by (simp add: f v rkappa_def vel2ref_def uinf_def)
  have "at3 (bndry (fu ?P)) 1 2 0 = 49 / 10"
    using bndry_interior [OF g i, of 0] p by (simp add: neq_def)
  then show ?thesis
    using c top f(1,2,3) by (simp add: f(4) uinf_def)
qed

text \<open>
  Claim C9, amended. On a field at steady state, the interior update of one Point-Jacobi
  iteration leaves both velocities of every interior cell unchanged and moves its
  pressure by exactly \<open>beta2 * dt * (viscx + viscy)\<close>, with the dissipation arrays as
  the iteration leaves them; so the pressure too is unchanged wherever these two terms
  sum to zero. The boundary-condition routine is then applied to the field so obtained
  and decides the border cells.
\<close>

theorem PJ_iteration_steady:
  assumes "grid3 (fu f)" "grid3 (fuold f)" "steady_state (fu f) (fsrc f)" "interior i j"
  shows "at3 (fu (PJ_iteration ls (\<lambda>u. u) f)) i j 1 = at3 (fu f) i j 1 \<and>
    at3 (fu (PJ_iteration ls (\<lambda>u. u) f)) i j 2 = at3 (fu f) i j 2 \<and>
    at3 (fu (PJ_iteration ls (\<lambda>u. u) f)) i j 0 =
      at3 (fu f) i j 0 +
      max (at3 (fu f) i j 1 * at3 (fu f) i j 1 + at3 (fu f) i j 2 * at3 (fu f) i j 2)
        (rkappa * vel2ref) * at2 (fdt f) i j *
      (at2 (fviscx (PJ_iteration ls (\<lambda>u. u) f)) i j +
       at2 (fviscy (PJ_iteration ls (\<lambda>u. u) f)) i j) \<and>
    fu (PJ_iteration ls bc f) = bc (fu (PJ_iteration ls (\<lambda>u. u) f))"
  by (rule PJ_iteration_steady_cells [OF assms])

theorem PJ_iteration_steady_witness:
  "grid3 (fu stale_fields) \<and> grid3 (fuold stale_fields) \<and>
   steady_state (fu stale_fields) (fsrc stale_fields) \<and> interior 1 2 \<and>
   at3 (fu (PJ_iteration (locals0, locals0) (\<lambda>u. u) stale_fields)) 1 2 1 = 0 \<and>
   at3 (fu (PJ_iteration (locals0, locals0) (\<lambda>u. u) stale_fields)) 1 2 2 = 0 \<and>
   at3 (fu (PJ_iteration (locals0, locals0) (\<lambda>u. u) stale_fields)) 1 2 0 =
     7 / 10 * (at2 (fviscx (PJ_iteration (locals0, locals0) (\<lambda>u. u) stale_fields)) 1 2 +
               at2 (fviscy (PJ_iteration (locals0, locals0) (\<lambda>u. u) stale_fields)) 1 2) \<and>
   fu (PJ_iteration (locals0, locals0) bndry stale_fields) =
     bndry (fu (PJ_iteration (locals0, locals0) (\<lambda>u. u) stale_fields))"
proof -
  note f = stale_fields_facts
  have i: "interior 1 2" by (simp add: interior_def imax_def jmax_def)
  show ?thesis
    using f(1,2,3) i PJ_iteration_steady [OF f(1,2,3) i, of "(locals0, locals0)" bndry]
    by (simp add: f(4,5) rkappa_def vel2ref_def uinf_def)
qed

section \<open>The symmetric Gauss-Seidel scheme\<close>

lemma grid3_mix_view [simp]: "grid3 (mix_view d R u) = grid3 u"
  by (simp add: mix_view_def)


lemma SGS_cell_writes:
  "\<exists>a b c. SGS_cell viscx viscy dt s i j u = set3 (set3 (set3 u i j 0 a) i j 1 b) i j 2 c"
  unfolding SGS_cell_def Let_def by (intro exI) (rule refl)

lemma grid3_SGS_cell [simp]: "grid3 (SGS_cell viscx viscy dt s i j u) = grid3 u"
proof -
  obtain a b c where "SGS_cell viscx viscy dt s i j u = set3 (set3 (set3 u i j 0 a) i j 1 b) i j 2 c"
    using SGS_cell_writes by blast
  then show ?thesis by simp
qed



























section \<open>The convergence monitor and the driver loop\<close>

lemma residual_sums:
  assumes "k = 0 \<or> k = 1 \<or> k = 2"
  shows "fold (\<lambda>(i, j). fold (\<lambda>k res.
            (let diff = (at3 u i j k - at3 uold i j k) / at2 dt i j
             in res(k := res k + diff * diff))) [0..neq - 1]) cs res k =
         res k + (\<Sum>(i, j) \<leftarrow> cs. ((at3 u i j k - at3 uold i j k) / at2 dt i j) ^ 2)"
proof -
  let ?f = "\<lambda>(i, j). fold (\<lambda>k res.
            (let diff = (at3 u i j k - at3 uold i j k) / at2 dt i j
             in res(k := res k + diff * diff))) [0..neq - 1]"
  have step: "?f (a, b) res k = res k + ((at3 u a b k - at3 uold a b k) / at2 dt a b) ^ 2"
    for a b res
    using assms by (auto simp: upto_neq Let_def power2_eq_square)
  show "fold ?f cs res k =
         res k + (\<Sum>(i, j) \<leftarrow> cs. ((at3 u i j k - at3 uold i j k) / at2 dt i j) ^ 2)"
  proof (induction cs arbitrary: res)
    case Nil
    then show ?case by simp
  next
    case (Cons c cs)
    obtain a b where c: "c = (a, b)" by (cases c)
    have "fold ?f (c # cs) res k = fold ?f cs (?f (a, b) res) k"
      unfolding c by (simp only: fold_simps)
    also have "\<dots> = ?f (a, b) res k +
        (\<Sum>(i, j) \<leftarrow> cs. ((at3 u i j k - at3 uold i j k) / at2 dt i j) ^ 2)"
      by (rule Cons.IH)
    also have "\<dots> = res k + ((at3 u a b k - at3 uold a b k) / at2 dt a b) ^ 2 +
        (\<Sum>(i, j) \<leftarrow> cs. ((at3 u i j k - at3 uold i j k) / at2 dt i j) ^ 2)"
      by (simp only: step)
    also have "\<dots> = res k +
        (\<Sum>(i, j) \<leftarrow> c # cs. ((at3 u i j k - at3 uold i j k) / at2 dt i j) ^ 2)"
      unfolding c by simp
    finally show ?case .
  qed
qed

lemma check_iterative_convergence_res:
  assumes "k = 0 \<or> k = 1 \<or> k = 2"
  shows "fst (check_iterative_convergence u uold dt res resinit) k =
         spec_raw_residual u uold dt k / resinit k"
proof -
  define r1 where "r1 = fold (\<lambda>k res. res(k := 0)) [0..neq - 1] (res(0 := 0, 1 := 0, 2 := 0))"
  define r2 where "r2 = fold (\<lambda>i. fold (\<lambda>j. fold (\<lambda>k res.
                   (let diff = (at3 u i j k - at3 uold i j k) / at2 dt i j
                    in res(k := res k + diff * diff))) [0..neq - 1]) [1..jmax - 2])
                 [1..imax - 2] r1"
  define r3 where "r3 = fold (\<lambda>k res.
                   (let res = res(k := sqrt (res k / of_int ((imax - 2) * (jmax - 2))))
                    in res(k := res k / resinit k))) [0..neq - 1] r2"
  have e: "fst (check_iterative_convergence u uold dt res resinit) = r3"
    unfolding check_iterative_convergence_def Let_def fst_conv r1_def r2_def r3_def ..
  have 1: "r1 k = 0" using assms by (auto simp: r1_def upto_neq)
  have 2: "r2 k = (\<Sum>(i, j) \<leftarrow> List.product [1..imax - 2] [1..jmax - 2].
             ((at3 u i j k - at3 uold i j k) / at2 dt i j) ^ 2)"
    unfolding r2_def fun_cong [OF fold_nested] residual_sums [OF assms] 1 by simp
  have 3: "r3 k = sqrt (r2 k / of_int ((imax - 2) * (jmax - 2))) / resinit k"
    using assms unfolding r3_def upto_neq by (auto simp: Let_def)
  show ?thesis
    unfolding e 3 2 spec_raw_residual_def ..
qed

lemma check_iterative_convergence_conv:
  "snd (check_iterative_convergence u uold dt res resinit) =
    max (max (fst (check_iterative_convergence u uold dt res resinit) 0)
             (fst (check_iterative_convergence u uold dt res resinit) 1))
        (fst (check_iterative_convergence u uold dt res resinit) 2)"
  by (simp add: check_iterative_convergence_def Let_def)

lemma initial_resinit:
  "case initial 0 file u s of
     Inl e \<Rightarrow> False
   | Inr (ninit, rtime, resinit, u', s') \<Rightarrow>
       ninit = 1 \<and> resinit 0 = 1 \<and> resinit 1 = 1 \<and> resinit 2 = 1"
  by (simp add: initial_def Let_def upto_neq split: prod.splits)

lemma main_iteration_resinit:
  "rs_resinit (main_iteration step bc imms junk s) = rs_resinit s"
  by (simp add: main_iteration_def Let_def split: prod.splits)

lemma main_loop_resinit:
  "rs_resinit (main_loop step bc imms junk s) = rs_resinit s"
proof (induction step bc imms junk s rule: main_loop.induct)
  case (1 step bc imms junk s)
  show ?case
  proof (cases "rs_n s \<le> nmax")
    case False
    then show ?thesis by (subst main_loop.simps) simp
  next
    case True
    let ?s' = "main_iteration step bc imms junk s"
    show ?thesis
    proof (cases "rs_conv ?s' < toler")
      case c: True
      show ?thesis
        by (subst main_loop.simps) (simp add: True c Let_def main_iteration_resinit)
    next
      case c: False
      have "rs_resinit (main_loop step bc imms junk (?s'\<lparr>rs_n := rs_n ?s' + 1\<rparr>)) =
            rs_resinit (?s'\<lparr>rs_n := rs_n ?s' + 1\<rparr>)"
        using "1.IH" [OF True refl c] .
      then show ?thesis
        by (subst main_loop.simps) (simp add: True c Let_def main_iteration_resinit)
    qed
  qed
qed

lemma initial_rows:
  assumes "grid3 u" "grid3 s" "0 \<le> j'" "j' < jmax" "0 \<le> k'" "k' < neq"
    and "\<forall>b \<in> set ys. 0 \<le> b \<and> b < jmax"
  shows "grid3 (fst (fold (\<lambda>j (u, s).
            (set3 (set3 (set3 u i j 0 pinf) i j 1 0) i j 2 0,
             set3 (set3 (set3 s i j 0 0) i j 1 0) i j 2 0)) ys (u, s))) \<and>
    grid3 (snd (fold (\<lambda>j (u, s).
            (set3 (set3 (set3 u i j 0 pinf) i j 1 0) i j 2 0,
             set3 (set3 (set3 s i j 0 0) i j 1 0) i j 2 0)) ys (u, s))) \<and>
    at3 (fst (fold (\<lambda>j (u, s).
            (set3 (set3 (set3 u i j 0 pinf) i j 1 0) i j 2 0,
             set3 (set3 (set3 s i j 0 0) i j 1 0) i j 2 0)) ys (u, s))) i' j' k' =
      (if i' = i \<and> j' \<in> set ys then (if k' = 0 then pinf else 0) else at3 u i' j' k') \<and>
    at3 (snd (fold (\<lambda>j (u, s).
            (set3 (set3 (set3 u i j 0 pinf) i j 1 0) i j 2 0,
             set3 (set3 (set3 s i j 0 0) i j 1 0) i j 2 0)) ys (u, s))) i' j' k' =
      (if i' = i \<and> j' \<in> set ys then 0 else at3 s i' j' k')"
  using assms(1,2,7)
proof (induction ys arbitrary: u s)
  case Nil
  then show ?case by simp
next
  case (Cons y ys)
  let ?u = "set3 (set3 (set3 u i y 0 pinf) i y 1 0) i y 2 0"
  let ?s = "set3 (set3 (set3 s i y 0 0) i y 1 0) i y 2 0"
  have y: "0 \<le> y" "y < jmax" using Cons.prems(3) by auto
  have g: "grid3 ?u" "grid3 ?s" using Cons.prems(1,2) by simp_all
  have r: "\<forall>b \<in> set ys. 0 \<le> b \<and> b < jmax" using Cons.prems(3) by simp
  have v: "at3 ?u i' j' k' = (if i' = i \<and> j' = y then (if k' = 0 then pinf else 0) else at3 u i' j' k')"
    "at3 ?s i' j' k' = (if i' = i \<and> j' = y then 0 else at3 s i' j' k')"
    by (auto simp: at3_set3_triple [OF Cons.prems(1) y assms(3-6)]
        at3_set3_triple [OF Cons.prems(2) y assms(3-6)])
  show ?case
    using Cons.IH [OF g r] v by auto
qed

lemma initial_column_cells:
  assumes "grid3 u" "grid3 s" "0 \<le> j'" "j' < jmax" "0 \<le> k'" "k' < neq"
  shows "grid3 (fst (initial_column i (u, s))) \<and> grid3 (snd (initial_column i (u, s))) \<and>
    at3 (fst (initial_column i (u, s))) i' j' k' =
      (if i' = i then (if k' = 0 then pinf else if k' = 1 \<and> j' = jmax - 1 then uinf else 0)
       else at3 u i' j' k') \<and>
    at3 (snd (initial_column i (u, s))) i' j' k' = (if i' = i then 0 else at3 s i' j' k')"
proof -
  let ?p = "fold (\<lambda>j (u, s).
            (set3 (set3 (set3 u i j 0 pinf) i j 1 0) i j 2 0,
             set3 (set3 (set3 s i j 0 0) i j 1 0) i j 2 0)) [0..jmax - 1] (u, s)"
  have r: "\<forall>b \<in> set [0..jmax - 1]. 0 \<le> b \<and> b < jmax" by auto
  note 1 = initial_rows [OF assms r, of i i']
  have e: "initial_column i (u, s) = (set3 (fst ?p) i (jmax - 1) 1 uinf, snd ?p)"
    by (simp add: initial_column_def split_def Let_def)
  have t: "0 \<le> jmax - 1" "jmax - 1 < jmax" "(0::int) \<le> 1" "(1::int) < neq"
    by (simp_all add: jmax_def neq_def)
  have "at3 (set3 (fst ?p) i (jmax - 1) 1 uinf) i' j' k' =
      (if i = i' \<and> jmax - 1 = j' \<and> 1 = k' then uinf else at3 (fst ?p) i' j' k')"
    using 1 by (intro at3_set3 t assms(3-)) simp
  then show ?thesis
    unfolding e fst_conv snd_conv using 1 assms(3,4) by auto
qed

lemma initial_columns:
  assumes "grid3 u" "grid3 s" "0 \<le> j'" "j' < jmax" "0 \<le> k'" "k' < neq"
  shows "grid3 (fst (fold initial_column xs (u, s))) \<and>
    grid3 (snd (fold initial_column xs (u, s))) \<and>
    at3 (fst (fold initial_column xs (u, s))) i' j' k' =
      (if i' \<in> set xs then (if k' = 0 then pinf else if k' = 1 \<and> j' = jmax - 1 then uinf else 0)
       else at3 u i' j' k') \<and>
    at3 (snd (fold initial_column xs (u, s))) i' j' k' =
      (if i' \<in> set xs then 0 else at3 s i' j' k')"
  using assms(1,2)
proof (induction xs arbitrary: u s)
  case Nil
  then show ?case by simp
next
  case (Cons x xs)
  obtain u1 s1 where e: "initial_column x (u, s) = (u1, s1)"
    by (cases "initial_column x (u, s)")
  note 1 = initial_column_cells [OF Cons.prems assms(3-), of x i']
  have g: "grid3 u1" "grid3 s1" using 1 e by simp_all
  show ?case
    using Cons.IH [OF g] 1 e by auto
qed

lemma initial_fresh:
  "initial 0 file u s =
    Inr (1, 0, fold (\<lambda>k r. r(k := 1)) [0..neq - 1] (\<lambda>k. 0),
         fst (fold initial_column [0..imax - 1] (u, s)),
         snd (fold initial_column [0..imax - 1] (u, s)))"
  by (simp add: initial_def Let_def split_def)

lemma fresh_start_eq:
  "fresh_start =
     \<lparr>rs_n = 1, rs_rtime = 0, rs_dtmin = 10 ^ 99, rs_conv = 0,
      rs_res = (\<lambda>k. 0), rs_resinit = fold (\<lambda>k r. r(k := 1)) [0..neq - 1] (\<lambda>k. 0),
      rs_fields = \<lparr>fu = bndry (fst (fold initial_column [0..imax - 1] (rest_field, rest_field))),
                    fuold = rest_field,
                    fsrc = snd (fold initial_column [0..imax - 1] (rest_field, rest_field)),
                    fviscx = zero2, fviscy = zero2, fdt = zero2\<rparr>\<rparr>"
  unfolding fresh_start_def initial_fresh by (simp add: split_def)

lemma fresh_field:
  defines "U \<equiv> fu (rs_fields fresh_start)" and "S \<equiv> fsrc (rs_fields fresh_start)"
  shows "grid3 U" "grid3 S"
    and "in_domain i j \<Longrightarrow> at3 U i j 1 = (if j = jmax - 1 then uinf else 0)"
    and "in_domain i j \<Longrightarrow> at3 U i j 2 = 0"
    and "0 \<le> i \<Longrightarrow> i < imax \<Longrightarrow> 1 \<le> j \<Longrightarrow> j \<le> jmax - 2 \<Longrightarrow> at3 U i j 0 = pinf"
    and "in_domain i j \<Longrightarrow> 0 \<le> k \<Longrightarrow> k < neq \<Longrightarrow> at3 S i j k = 0"
proof -
  let ?p = "fold initial_column [0..imax - 1] (rest_field, rest_field)"
  have g: "grid3 rest_field" by (simp add: grid3_def rest_field_def)
  have U: "U = bndry (fst ?p)" and S: "S = snd ?p"
    unfolding U_def S_def fresh_start_eq by simp_all
  have ini: "grid3 (fst ?p)" "grid3 (snd ?p)"
    "at3 (fst ?p) a b c =
      (if 0 \<le> a \<and> a < imax
       then (if c = 0 then pinf else if c = 1 \<and> b = jmax - 1 then uinf else 0)
       else at3 rest_field a b c)"
    "at3 (snd ?p) a b c = (if 0 \<le> a \<and> a < imax then 0 else at3 rest_field a b c)"
    if "0 \<le> b" "b < jmax" "0 \<le> c" "c < neq" for a b c
    using initial_columns [OF g g that, of "[0..imax - 1]" a] by auto
  have z: "(0::int) \<le> 0" "(0::int) < jmax" "(0::int) < neq" "(0::int) \<le> 1" "(1::int) < neq"
    "(0::int) \<le> 2" "(2::int) < neq"
    by (simp_all add: jmax_def neq_def)
  have gp: "grid3 (fst ?p)" "grid3 (snd ?p)" using ini(1,2) [OF z(1,2) z(1,3)] by simp_all
  show "grid3 U" unfolding U by (rule grid3_bndry [OF gp(1)])
  show "grid3 S" unfolding S by (rule gp(2))
  show "at3 S i j k = 0" if "in_domain i j" "0 \<le> k" "k < neq"
    unfolding S using that ini(4) [of j k i] by (simp add: in_domain_def)
  have vel: "at3 U i j k = (if k = 1 \<and> j = jmax - 1 then uinf else 0)"
    if d: "in_domain i j" and k: "k = 1 \<or> k = 2" for k
  proof -
    have r: "0 \<le> i" "i < imax" "0 \<le> j" "j < jmax" using d by (simp_all add: in_domain_def)
    have kr: "0 \<le> k" "k < neq" using k by (auto simp: neq_def)
    consider "j = 0" | "j = jmax - 1" | "1 \<le> j" "j \<le> jmax - 2" "i = 0 \<or> i = imax - 1"
      | "interior i j"
      using r unfolding interior_def by arith
    then show ?thesis
    proof cases
      case 1
      then show ?thesis
        unfolding U using bndry_rows [OF gp(1) r(1,2)] k by (auto simp: jmax_def)
    next
      case 2
      then show ?thesis
        unfolding U using bndry_rows [OF gp(1) r(1,2)] k by auto
    next
      case 3
      then show ?thesis
        unfolding U using bndry_sides_velocity [OF gp(1) 3(1,2) k] by auto
    next
      case 4
      then have "j \<noteq> jmax - 1" by (simp add: interior_def)
      then show ?thesis
        unfolding U bndry_interior [OF gp(1) 4 kr] ini(3) [OF r(3,4) kr]
        using r k by auto
    qed
  qed
  show "at3 U i j 1 = (if j = jmax - 1 then uinf else 0)" if "in_domain i j"
    using vel [OF that, of 1] by simp
  show "at3 U i j 2 = 0" if "in_domain i j"
    using vel [OF that, of 2] by simp
  show "at3 U i j 0 = pinf" if r: "0 \<le> i" "i < imax" "1 \<le> j" "j \<le> jmax - 2"
  proof -
    have jr: "0 \<le> j" "j < jmax" using r by simp_all
    have p: "at3 (fst ?p) a j 0 = pinf" if "0 \<le> a" "a < imax" for a
      using ini(3) [OF jr z(1,3), of a] that by simp
    consider "i = 0" | "i = imax - 1" | "interior i j"
      using r unfolding interior_def by arith
    then show ?thesis
    proof cases
      case 1
      then show ?thesis
        unfolding U using bndry_sides_pressure [OF gp(1) r(3,4)] p [of 1] p [of 2]
        by (simp add: imax_def)
    next
      case 2
      then show ?thesis
        unfolding U using bndry_sides_pressure [OF gp(1) r(3,4)] p [of "imax - 2"] p [of "imax - 3"]
        by (simp add: imax_def)
    next
      case 3
      show ?thesis
        unfolding U bndry_interior [OF gp(1) 3 z(1,3)] by (rule p [OF r(1,2)])
    qed
  qed
qed

lemma sum_list_product_const:
  "(\<Sum>(i, j) \<leftarrow> List.product A B. h j) = of_nat (length A) * (\<Sum>j \<leftarrow> B. (h j :: real))"
proof (induction A)
  case Nil
  then show ?case by simp
next
  case (Cons a A)
  have "(\<Sum>(i, j) \<leftarrow> map (Pair a) B. h j) = (\<Sum>j \<leftarrow> B. h j)"
    by (simp add: comp_def)
  then show ?case using Cons by (simp add: algebra_simps)
qed

lemma sum_list_last_row:
  "(\<Sum>j \<leftarrow> [1..jmax - 2]. if j = jmax - 2 then c else (0::real)) = c"
proof -
  have z: "(\<Sum>j \<leftarrow> xs. if j = jmax - 2 then c else (0::real)) = 0"
    if "\<forall>j \<in> set xs. j \<noteq> jmax - 2" for xs
    using that by (induction xs) auto
  have "[1..jmax - 2] = [1..jmax - 2 - 1] @ [jmax - 2]"
    by (rule upto_rec2) (simp add: jmax_def)
  then show ?thesis using z [of "[1..jmax - 2 - 1]"] by simp
qed

lemma main_iteration_PJ_res:
  "rs_res (main_iteration PJ_iteration bc imms junk s) =
    fst (check_iterative_convergence
      (pressure_rescaling imms (fu (PJ_iteration (junk (rs_n s)) bc
         ((rs_fields s)\<lparr>fdt := fst (compute_time_step (fu (rs_fields s)) (fdt (rs_fields s)) (rs_dtmin s))\<rparr>))))
      ((fuold (rs_fields s))\<lparr>data3 := data3 (fu (rs_fields s))\<rparr>)
      (fst (compute_time_step (fu (rs_fields s)) (fdt (rs_fields s)) (rs_dtmin s)))
      (rs_res s) (rs_resinit s))"
  by (simp add: main_iteration_def Let_def split_def PJ_iteration_unfold)

lemma first_iteration_xmtm:
  "rs_res (main_iteration PJ_iteration bndry 0 junk fresh_start) 1 = 4096 / 5 / sqrt 63"
proof -
  define f where "f = rs_fields fresh_start"
  define U where "U = fu f"
  define S where "S = fsrc f"
  define DT where "DT = fst (compute_time_step U (fdt f) (rs_dtmin fresh_start))"
  define Old where "Old = (fuold f)\<lparr>data3 := data3 U\<rparr>"
  define B where "B = U\<lparr>data3 := data3 (fuold f)\<rparr>"
  define c where "c = Compute_Artificial_Viscosity (fst (junk (rs_n fresh_start))) Old (fviscx f) (fviscy f)"
  define X where "X = point_Jacobi B Old (cv_viscx c) (cv_viscy c) DT S"
  define New where "New = pressure_rescaling 0 (bndry X)"
  note ff = fresh_field [folded f_def, folded U_def S_def]
  have fo: "fuold f = rest_field" "fdt f = zero2"
    unfolding f_def fresh_start_eq by simp_all
  have ri: "rs_resinit fresh_start 1 = 1"
    unfolding fresh_start_eq by (simp add: upto_neq)
  have go: "grid3 (fuold f)" unfolding fo by (simp add: grid3_def rest_field_def)
  have gz: "grid2 (fdt f)" unfolding fo by (simp add: grid2_def zero2_def)
  have gB: "grid3 B" unfolding B_def using ff(1) by simp
  have gX: "grid3 X" unfolding X_def using gB by simp
  have gN: "grid3 (bndry X)" by (rule grid3_bndry [OF gX])
  have old: "at3 Old a b k = at3 U a b k" for a b k
    unfolding Old_def by (rule at3_swapped [OF go ff(1)])
  have r: "rs_res (main_iteration PJ_iteration bndry 0 junk fresh_start) =
      fst (check_iterative_convergence New Old DT (rs_res fresh_start) (rs_resinit fresh_start))"
    unfolding main_iteration_PJ_res New_def X_def c_def B_def Old_def DT_def U_def S_def f_def
    by (simp add: PJ_iteration_unfold Let_def)
  have k1: "(0::int) \<le> 1" "(1::int) < neq" by (simp_all add: neq_def)
  have tm: "((at3 New i j 1 - at3 Old i j 1) / at2 DT i j) ^ 2 =
      (if j = jmax - 2 then (4096 / 5) ^ 2 else 0)" if ij: "interior i j" for i j
  proof -
    have b: "1 \<le> i" "i \<le> imax - 2" "1 \<le> j" "j \<le> jmax - 2" "0 \<le> j" "j < jmax"
      using ij by (simp_all add: interior_def)
    have dom: "in_domain i j" "in_domain (i + 1) j" "in_domain (i - 1) j"
      "in_domain i (j + 1)" "in_domain i (j - 1)"
      using b by (simp_all add: in_domain_def)
    have v: "at3 U i j 1 = 0" "at3 U i j 2 = 0" "at3 U (i + 1) j 1 = 0" "at3 U (i - 1) j 1 = 0"
      "at3 U i (j - 1) 1 = 0" "at3 U i (j + 1) 1 = (if j = jmax - 2 then uinf else 0)"
      using ff(3) [OF dom(1)] ff(4) [OF dom(1)] ff(3) [OF dom(2)] ff(3) [OF dom(3)]
        ff(3) [OF dom(5)] ff(3) [OF dom(4)] b
      by auto
    have p: "at3 U (i + 1) j 0 = pinf" "at3 U (i - 1) j 0 = pinf"
      using ff(5) [of "i + 1" j] ff(5) [of "i - 1" j] b by simp_all
    have sr: "at3 S i j 1 = 0" by (rule ff(6) [OF dom(1) k1])
    have dt: "at2 DT i j = spec_local_step U i j"
      unfolding DT_def using compute_time_step_dt [OF gz b(5,6), of U _ i] ij by simp
    have pos: "0 < spec_local_step U i j"
      by (rule spec_local_step_at_rest(2) [OF v(1,2)])
    have x: "at3 X i j 1 = spec_local_step U i j * (if j = jmax - 2 then 4096 / 5 else 0)"
      unfolding X_def point_Jacobi_cells [OF gB b(5,6) k1] PJ_cell_own_u [OF gB b(5,6)] old
        v p sr dt
      using ij
      by (simp add: rhoinv_def rho_def rmu_def uinf_def rlength_def xmax_def xmin_def Re_c_def
          dy_def ymax_def ymin_def jmax_def)
    have n: "at3 New i j 1 = at3 X i j 1"
      unfolding New_def pressure_rescaling_cells [OF gN b(5,6) k1]
      using bndry_interior [OF gX ij k1] by simp
    show ?thesis
      unfolding n x old v(1) dt using pos by simp
  qed
  have "(\<Sum>(i, j) \<leftarrow> List.product [1..imax - 2] [1..jmax - 2].
           ((at3 New i j 1 - at3 Old i j 1) / at2 DT i j) ^ 2) =
        (\<Sum>(i, j) \<leftarrow> List.product [1..imax - 2] [1..jmax - 2].
           if j = jmax - 2 then (4096 / 5) ^ 2 else (0::real))"
    by (rule arg_cong [where f = sum_list], rule map_cong [OF refl])
      (auto simp: tm interior_def)
  also have "\<dots> = 63 * (4096 / 5) ^ 2"
    unfolding sum_list_product_const sum_list_last_row by (simp add: imax_def)
  finally have "spec_raw_residual New Old DT 1 = sqrt (63 * (4096 / 5) ^ 2 / 3969)"
    unfolding spec_raw_residual_def by (simp add: imax_def jmax_def)
  also have "\<dots> = sqrt ((4096 / 5) ^ 2 / 63)" by simp
  also have "\<dots> = 4096 / 5 / sqrt 63"
    unfolding real_sqrt_divide by simp
  finally show ?thesis
    unfolding r check_iterative_convergence_res [of 1, simplified] ri by simp
qed

text \<open>
  Claim C3, on the code. In a fresh run \<open>initial\<close> sets the three initial residuals to
  1; neither one pass of the main loop nor the whole loop assigns them; and the monitor
  returns, for each equation, the raw residual divided by that stored value, with the
  largest of the three as the convergence scalar. In the first iteration of the fresh
  run with the Point-Jacobi scheme and the wall boundary conditions the x-momentum
  residual comes out as \<open>4096 / 5 / sqrt 63\<close>, above 100, and the stored initial
  residual is still 1 afterwards: from the second iteration on the code divides by 1
  and not by the residual of the first iteration.
\<close>

theorem residuals_divided_by_initial_value:
  "(case initial 0 file u0 s0 of
      Inl e \<Rightarrow> False
    | Inr (ninit, rtime, resinit, u', s') \<Rightarrow>
        ninit = 1 \<and> resinit 0 = 1 \<and> resinit 1 = 1 \<and> resinit 2 = 1) \<and>
   rs_resinit (main_iteration step bc imms junk s) = rs_resinit s \<and>
   rs_resinit (main_loop step bc imms junk s) = rs_resinit s \<and>
   fst (check_iterative_convergence u uold dt res resinit) 0 =
     spec_raw_residual u uold dt 0 / resinit 0 \<and>
   fst (check_iterative_convergence u uold dt res resinit) 1 =
     spec_raw_residual u uold dt 1 / resinit 1 \<and>
   fst (check_iterative_convergence u uold dt res resinit) 2 =
     spec_raw_residual u uold dt 2 / resinit 2 \<and>
   snd (check_iterative_convergence u uold dt res resinit) =
    max (max (fst (check_iterative_convergence u uold dt res resinit) 0)
             (fst (check_iterative_convergence u uold dt res resinit) 1))
        (fst (check_iterative_convergence u uold dt res resinit) 2) \<and>
   rs_res (main_iteration PJ_iteration bndry 0 junk fresh_start) 1 = 4096 / 5 / sqrt 63 \<and>
   100 < rs_res (main_iteration PJ_iteration bndry 0 junk fresh_start) 1 \<and>
   rs_resinit (main_iteration PJ_iteration bndry 0 junk fresh_start) 1 = 1"
proof -
  have "sqrt 63 < sqrt (64 :: real)" by (simp only: real_sqrt_less_iff)
  moreover have "sqrt (64 :: real) = 8" by (rule real_sqrt_unique) simp_all
  moreover have "0 < sqrt (63 :: real)" by simp
  ultimately have h: "100 < 4096 / 5 / sqrt (63 :: real)" by (simp add: field_simps)
  have i: "rs_resinit (main_iteration PJ_iteration bndry 0 junk fresh_start) 1 = 1"
    unfolding main_iteration_resinit fresh_start_eq by (simp add: upto_neq)
  show ?thesis
    using initial_resinit main_iteration_resinit main_loop_resinit
      check_iterative_convergence_res [of 0] check_iterative_convergence_res [of 1]
      check_iterative_convergence_res [of 2] check_iterative_convergence_conv
      first_iteration_xmtm h i
    by simp
qed

end
